theory Spec2Isabelle
  imports Main "HOL-Library.Multiset"
begin

section \<open>The JavaScript \<open>Map\<close>: a dictionary that remembers insertion order\<close>

text \<open>
  \<open>src/server/cache.ts\<close> relies on the iteration order of the built-in \<open>Map\<close>: keys are
  visited in the order of their first insertion, \<open>set\<close> on a key that is present keeps its
  position, and \<open>delete\<close> followed by \<open>set\<close> moves the key to the end. The model is an
  association list with distinct keys, oldest insertion first.
\<close>

type_synonym ('k, 'v) jsmap = "('k \<times> 'v) list"

definition map_has :: "('k, 'v) jsmap \<Rightarrow> 'k \<Rightarrow> bool" where
  "map_has m k = (k \<in> set (map fst m))"

definition map_get :: "('k, 'v) jsmap \<Rightarrow> 'k \<Rightarrow> 'v option" where
  "map_get m k = map_of m k"

definition map_delete :: "('k, 'v) jsmap \<Rightarrow> 'k \<Rightarrow> ('k, 'v) jsmap" where
  "map_delete m k = filter (\<lambda>e. fst e \<noteq> k) m"

definition map_set :: "('k, 'v) jsmap \<Rightarrow> 'k \<Rightarrow> 'v \<Rightarrow> ('k, 'v) jsmap" where
  "map_set m k v =
     (if map_has m k then map (\<lambda>e. if fst e = k then (k, v) else e) m
      else m @ [(k, v)])"

definition map_size :: "('k, 'v) jsmap \<Rightarrow> nat" where
  "map_size m = length m"

text \<open>\<open>m.keys().next().value\<close>: the oldest key, \<open>undefined\<close> (here \<open>None\<close>) on an empty map.\<close>

definition map_first_key :: "('k, 'v) jsmap \<Rightarrow> 'k option" where
  "map_first_key m = (case m of [] \<Rightarrow> None | e # _ \<Rightarrow> Some (fst e))"


section \<open>\<open>LRUCache\<close> (\<open>src/server/cache.ts\<close>)\<close>

text \<open>
  The class has two fields, the private \<open>Map\<close> and the read-only \<open>maxSize\<close>. \<open>maxSize\<close> is a
  JavaScript number given by the caller; it is modelled as an integer, which may be zero or
  negative since the constructor checks nothing.
\<close>

record 'v LRUCache =
  cache :: "(string, 'v) jsmap"
  maxSize :: int

definition new_LRUCache :: "int \<Rightarrow> 'v LRUCache" where
  "new_LRUCache n = \<lparr>cache = [], maxSize = n\<rparr>"

text \<open>\<open>get\<close> returns the value and the cache with the key moved to the end.\<close>

definition cache_get :: "'v LRUCache \<Rightarrow> string \<Rightarrow> 'v option \<times> 'v LRUCache" where
  "cache_get c key =
     (if \<not> map_has (cache c) key then (None, c)
      else (case map_get (cache c) key of
              None \<Rightarrow> (None, c)
            | Some v \<Rightarrow> (Some v, c\<lparr>cache := map_set (map_delete (cache c) key) key v\<rparr>)))"

definition cache_set :: "'v LRUCache \<Rightarrow> string \<Rightarrow> 'v \<Rightarrow> 'v LRUCache" where
  "cache_set c key v =
     (let m = (if map_has (cache c) key then map_delete (cache c) key
               else if maxSize c \<le> int (map_size (cache c)) then
                 (case map_first_key (cache c) of
                    None \<Rightarrow> cache c
                  | Some firstKey \<Rightarrow> map_delete (cache c) firstKey)
               else cache c)
      in c\<lparr>cache := map_set m key v\<rparr>)"

definition cache_has :: "'v LRUCache \<Rightarrow> string \<Rightarrow> bool" where
  "cache_has c key = map_has (cache c) key"

definition cache_delete :: "'v LRUCache \<Rightarrow> string \<Rightarrow> bool \<times> 'v LRUCache" where
  "cache_delete c key = (map_has (cache c) key, c\<lparr>cache := map_delete (cache c) key\<rparr>)"

definition cache_clear :: "'v LRUCache \<Rightarrow> 'v LRUCache" where
  "cache_clear c = c\<lparr>cache := []\<rparr>"

definition cache_size :: "'v LRUCache \<Rightarrow> nat" where
  "cache_size c = map_size (cache c)"

definition cache_keys :: "'v LRUCache \<Rightarrow> string list" where
  "cache_keys c = map fst (cache c)"

subsection \<open>Histories of calls\<close>

text \<open>
  A client of the cache issues a sequence of calls. \<open>run\<close> performs them in order on a cache
  and returns the final cache; the values returned by the calls are dropped.
\<close>

datatype 'v cache_call =
    Get string
  | Set string 'v
  | Has string
  | Delete string
  | Clear

fun call :: "'v LRUCache \<Rightarrow> 'v cache_call \<Rightarrow> 'v LRUCache" where
  "call c (Get k) = snd (cache_get c k)"
| "call c (Set k v) = cache_set c k v"
| "call c (Has k) = c"
| "call c (Delete k) = snd (cache_delete c k)"
| "call c Clear = cache_clear c"

definition run :: "'v LRUCache \<Rightarrow> 'v cache_call list \<Rightarrow> 'v LRUCache" where
  "run c calls = foldl call c calls"

text \<open>
  A call touches a key when it is a \<open>get\<close> or a \<open>set\<close> of that key. \<open>touch_time calls k\<close> is the
  position (counted from 1) of the last call of the history that touches \<open>k\<close>, and 0 when no
  call does: the history is read backwards and the calls after the last touch are dropped.
\<close>

fun touches :: "'v cache_call \<Rightarrow> string \<Rightarrow> bool" where
  "touches (Get k') k = (k' = k)"
| "touches (Set k' v) k = (k' = k)"
| "touches (Has k') k = False"
| "touches (Delete k') k = False"
| "touches Clear k = False"

definition touch_time :: "'v cache_call list \<Rightarrow> string \<Rightarrow> nat" where
  "touch_time calls k = length (dropWhile (\<lambda>c. \<not> touches c k) (rev calls))"


text \<open>
  The order invariant of the cache: the keys are distinct, every key has been touched, and
  the keys are listed by strictly increasing time of last touch.
\<close>
definition recency_ordered :: "'v cache_call list \<Rightarrow> string list \<Rightarrow> bool" where
  "recency_ordered calls ks =
     (distinct ks \<and> sorted_wrt (\<lambda>a b. touch_time calls a < touch_time calls b) ks \<and>
      (\<forall>k \<in> set ks. 0 < touch_time calls k))"


section \<open>The render engine (\<open>server/engine.ts\<close>)\<close>

text \<open>
  What a JavaScript \<open>throw\<close> carries: an \<open>Error\<close> object with its message (a \<open>TypeError\<close> is
  one), or any other value. \<open>render\<close> tells them apart with \<open>instanceof Error\<close>.
\<close>

datatype thrown = TypeError string | Error string | NonError

fun errorMessage :: "thrown \<Rightarrow> string" where
  "errorMessage (TypeError m) = m"
| "errorMessage (Error m) = m"
| "errorMessage NonError = ''Unknown error''"

type_synonym headers = "(string \<times> string) list"

record CacheEntry =
  entry_html :: string
  entry_status :: int
  entry_headers :: headers
  timestamp :: int
  expiresAt :: int

record RenderResult =
  html :: string
  status :: int
  headers :: headers
  fromCache :: bool
  renderTime :: int

record RenderOptions =
  url :: string
  document :: "string option"
  skipCache :: bool

text \<open>
  The fields of the engine that \<open>render\<close> reads or writes. \<open>engine_cache\<close> is the field \<open>cache\<close>
  of the class, \<open>None\<close> when the engine was built with \<open>enableCache: false\<close>. The bootstrap
  function, the providers and the dist folders are only handed to \<open>renderApplication\<close> and
  are part of that parameter.
\<close>

record BunAngularEngine =
  indexHtmlPath :: string
  indexHtmlContent :: "string option"
  engine_cache :: "CacheEntry LRUCache option"
  cacheTtl :: int

text \<open>
  What one call of \<open>render\<close> gets from outside the repository:
  \<^item> \<open>parse_url u\<close> is \<open>new URL(u, 'http://localhost')\<close>, the pair of \<open>pathname\<close> and \<open>search\<close>,
    or \<open>None\<close> when the constructor throws its \<open>TypeError\<close>;
  \<^item> \<open>read_index\<close> is the index file: \<open>None\<close> when \<open>existsSync\<close> is false, otherwise what
    \<open>readFileSync\<close> returns or throws;
  \<^item> \<open>renderApplication document url\<close> is the awaited external render;
  \<^item> \<open>now_valid\<close>, \<open>now_timestamp\<close>, \<open>now_expires\<close> are the three readings of \<open>Date.now()\<close>, in
    the order of the program text;
  \<^item> \<open>production\<close> says whether \<open>NODE_ENV\<close> is \<open>production\<close>;
  \<^item> \<open>elapsed\<close> is the measured \<open>performance.now() - startTime\<close>.
\<close>

record render_env =
  parse_url :: "string \<Rightarrow> (string \<times> string) option"
  read_index :: "(thrown + string) option"
  renderApplication :: "string \<Rightarrow> string \<Rightarrow> thrown + string"
  now_valid :: int
  now_timestamp :: int
  now_expires :: int
  production :: bool
  elapsed :: int

definition loadIndexHtml :: "render_env \<Rightarrow> BunAngularEngine \<Rightarrow> thrown + BunAngularEngine" where
  "loadIndexHtml w e =
     (case read_index w of
        None \<Rightarrow> Inr e
      | Some (Inl err) \<Rightarrow> Inl err
      | Some (Inr content) \<Rightarrow> Inr (e\<lparr>indexHtmlContent := Some content\<rparr>))"

text \<open>A string or \<open>null\<close> is truthy when it is a non-empty string.\<close>

fun truthy :: "string option \<Rightarrow> bool" where
  "truthy None = False"
| "truthy (Some s) = (s \<noteq> [])"

definition getDocument ::
  "render_env \<Rightarrow> BunAngularEngine \<Rightarrow> string option \<Rightarrow> (thrown + string) \<times> BunAngularEngine" where
  "getDocument w e customDocument =
     (if truthy customDocument then (Inr (case customDocument of Some d \<Rightarrow> d | None \<Rightarrow> []), e)
      else
        (case (if \<not> truthy (indexHtmlContent e) then loadIndexHtml w e else Inr e) of
           Inl err \<Rightarrow> (Inl err, e)
         | Inr e1 \<Rightarrow>
             (case indexHtmlContent e1 of
                None \<Rightarrow>
                  (Inl (Error (''Could not find index.html at '' @ indexHtmlPath e1 @ ''. '' @
                               ''Please ensure the browser build output exists.'')), e1)
              | Some content \<Rightarrow>
                  if content = [] then
                    (Inl (Error (''Could not find index.html at '' @ indexHtmlPath e1 @ ''. '' @
                                 ''Please ensure the browser build output exists.'')), e1)
                  else (Inr content, e1))))"

definition getCacheKey :: "render_env \<Rightarrow> string \<Rightarrow> thrown + string" where
  "getCacheKey w u =
     (case parse_url w u of
        None \<Rightarrow> Inl (TypeError ''Invalid URL'')
      | Some (pathname, search) \<Rightarrow> Inr (pathname @ search))"

definition isCacheValid :: "render_env \<Rightarrow> CacheEntry \<Rightarrow> bool" where
  "isCacheValid w entry = (now_valid w < expiresAt entry)"

text \<open>The lines of a template literal are joined by the newline character.\<close>

definition join_lines :: "string list \<Rightarrow> string" where
  "join_lines ls = concat (case ls of [] \<Rightarrow> [] | l # rest \<Rightarrow> l # map (\<lambda>x. CHR 0x0A # x) rest)"

definition renderErrorPage :: "render_env \<Rightarrow> string \<Rightarrow> string" where
  \<open>renderErrorPage w message = join_lines
     ([''<!DOCTYPE html>'',
      ''<html lang="en">'',
      ''<head>'',
      ''  <meta charset="UTF-8">'',
      ''  <meta name="viewport" content="width=device-width, initial-scale=1.0">'',
      ''  <title>Server Error</title>'',
      ''  <style>'',
      ''    body {'',
      ''      font-family: system-ui, -apple-system, sans-serif;'',
      ''      display: flex;'',
      ''      justify-content: center;'',
      ''      align-items: center;'',
      ''      min-height: 100vh;'',
      ''      margin: 0;'',
      ''      background: #0f0f0f;'',
      ''      color: #fff;'',
      ''    }'',
      ''    .error-container {'',
      ''      text-align: center;'',
      ''      padding: 2rem;'',
      ''      max-width: 600px;'',
      ''    }'',
      ''    h1 {'',
      ''      font-size: 4rem;'',
      ''      margin: 0;'',
      ''      background: linear-gradient(135deg, #ff6b6b, #feca57);'',
      ''      -webkit-background-clip: text;'',
      ''      -webkit-text-fill-color: transparent;'',
      ''      background-clip: text;'',
      ''    }'',
      ''    p {'',
      ''      color: #888;'',
      ''      margin-top: 1rem;'',
      ''    }'',
      ''    code {'',
      ''      display: block;'',
      ''      margin-top: 1rem;'',
      ''      padding: 1rem;'',
      ''      background: #1a1a1a;'',
      ''      border-radius: 8px;'',
      ''      font-size: 0.875rem;'',
      ''      color: #ff6b6b;'',
      ''      word-break: break-word;'',
      ''    }'',
      ''  </style>'',
      ''</head>'',
      ''<body>'',
      ''  <div class="error-container">'',
      ''    <h1>500</h1>'',
      ''    <p>An error occurred while rendering this page.</p>'',
      ''    '' @ (if \<not> production w then ''<code>'' @ message @ ''</code>'' else [])] @
     [''  </div>'',
      ''</body>'',
      ''</html>''])\<close>

text \<open>
  The first step of \<open>render\<close>, the cache check: the entry served from the cache, if any, and
  the engine after the lookup (\<open>LRUCache.get\<close> moves a key it finds to the end).
\<close>

definition cache_check ::
  "render_env \<Rightarrow> BunAngularEngine \<Rightarrow> RenderOptions \<Rightarrow> string \<Rightarrow>
     RenderResult option \<times> BunAngularEngine" where
  "cache_check w e options cacheKey =
     (case engine_cache e of
        None \<Rightarrow> (None, e)
      | Some c \<Rightarrow>
          if skipCache options then (None, e)
          else
            (case cache_get c cacheKey of
               (None, c1) \<Rightarrow> (None, e\<lparr>engine_cache := Some c1\<rparr>)
             | (Some cached, c1) \<Rightarrow>
                 if isCacheValid w cached then
                   (Some \<lparr>html = entry_html cached, status = entry_status cached,
                           headers = entry_headers cached, fromCache = True,
                           renderTime = elapsed w\<rparr>,
                    e\<lparr>engine_cache := Some c1\<rparr>)
                 else (None, e\<lparr>engine_cache := Some c1\<rparr>)))"

text \<open>
  The body of the \<open>try\<close> block: \<open>Inl\<close> is what reaches the \<open>catch\<close>. The engine returned with
  it is the engine at the moment of the throw.
\<close>

definition try_render ::
  "render_env \<Rightarrow> BunAngularEngine \<Rightarrow> RenderOptions \<Rightarrow> string \<Rightarrow>
     (thrown + RenderResult) \<times> BunAngularEngine" where
  "try_render w e options cacheKey =
     (case getDocument w e (document options) of
        (Inl err, e1) \<Rightarrow> (Inl err, e1)
      | (Inr doc, e1) \<Rightarrow>
          (case parse_url w (url options) of
             None \<Rightarrow> (Inl (TypeError ''Invalid URL''), e1)
           | Some (pathname, search) \<Rightarrow>
               (case renderApplication w doc (pathname @ search) of
                  Inl err \<Rightarrow> (Inl err, e1)
                | Inr rendered \<Rightarrow>
                    (let result = \<lparr>html = rendered, status = 200,
                                    headers = [(''Content-Type'', ''text/html; charset=utf-8''),
                                               (''X-Rendered-By'', ''bun-angular-ssr'')],
                                    fromCache = False, renderTime = elapsed w\<rparr>
                     in (Inr result,
                         (case engine_cache e1 of
                            None \<Rightarrow> e1
                          | Some c \<Rightarrow>
                              if skipCache options then e1
                              else e1\<lparr>engine_cache := Some (cache_set c cacheKey
                                     \<lparr>entry_html = html result, entry_status = status result,
                                      entry_headers = headers result,
                                      timestamp = now_timestamp w,
                                      expiresAt = now_expires w + cacheTtl e1\<rparr>)\<rparr>))))))"

text \<open>The \<open>try\<close> with its \<open>catch\<close>: every throw of the body becomes the error page.\<close>

definition render_fresh ::
  "render_env \<Rightarrow> BunAngularEngine \<Rightarrow> RenderOptions \<Rightarrow> string \<Rightarrow>
     RenderResult \<times> BunAngularEngine" where
  "render_fresh w e options cacheKey =
     (case try_render w e options cacheKey of
        (Inr result, e1) \<Rightarrow> (result, e1)
      | (Inl err, e1) \<Rightarrow>
          (\<lparr>html = renderErrorPage w (errorMessage err), status = 500,
            headers = [(''Content-Type'', ''text/html; charset=utf-8'')],
            fromCache = False, renderTime = elapsed w\<rparr>, e1))"

text \<open>
  \<open>render\<close>: the cache key is computed first, outside the \<open>try\<close>, so a throw of \<open>getCacheKey\<close>
  leaves the function (\<open>Inl\<close>, a rejected promise).
\<close>

definition render ::
  "render_env \<Rightarrow> BunAngularEngine \<Rightarrow> RenderOptions \<Rightarrow>
     (thrown + RenderResult) \<times> BunAngularEngine" where
  "render w e options =
     (case getCacheKey w (url options) of
        Inl err \<Rightarrow> (Inl err, e)
      | Inr cacheKey \<Rightarrow>
          (case cache_check w e options cacheKey of
             (Some hit, e1) \<Rightarrow> (Inr hit, e1)
           | (None, e1) \<Rightarrow>
               (case render_fresh w e1 options cacheKey of
                  (result, e2) \<Rightarrow> (Inr result, e2))))"


section \<open>Strings, paths and files\<close>

text \<open>
  The string methods of JavaScript that the sources call with literal arguments.
\<close>

definition startsWith :: "string \<Rightarrow> string \<Rightarrow> bool" where
  "startsWith s p = (take (length p) s = p)"

definition endsWith :: "string \<Rightarrow> string \<Rightarrow> bool" where
  "endsWith s p = (length p \<le> length s \<and> drop (length s - length p) s = p)"

definition includes_string :: "string \<Rightarrow> string \<Rightarrow> bool" where
  "includes_string s p = list_ex (\<lambda>i. startsWith (drop i s) p) [0..<Suc (length s)]"

text \<open>\<open>s.split(c)\<close> for a one-character separator: the pieces between the separators.\<close>

fun split_on :: "char \<Rightarrow> string \<Rightarrow> string list" where
  "split_on c [] = [[]]"
| "split_on c (x # xs) =
     (if x = c then [] # split_on c xs
      else (case split_on c xs of
              [] \<Rightarrow> [[x]]
            | s # ss \<Rightarrow> (x # s) # ss))"

text \<open>\<open>ls.join(c)\<close>.\<close>

fun join_with :: "char \<Rightarrow> string list \<Rightarrow> string" where
  "join_with c [] = []"
| "join_with c [s] = s"
| "join_with c (s # t # ss) = s @ c # join_with c (t # ss)"

text \<open>
  \<open>toLowerCase\<close> on the letters A to Z; the strings of this model are byte strings and other
  characters are left as they are.
\<close>

definition lower_char :: "char \<Rightarrow> char" where
  "lower_char c =
     (let n = (of_char c :: nat) in if 65 \<le> n \<and> n \<le> 90 then char_of (n + 32) else c)"

definition toLowerCase :: "string \<Rightarrow> string" where
  "toLowerCase s = map lower_char s"

text \<open>
  A non-negative integer in decimal, and a JavaScript number that holds an integer as a
  template literal prints it (below \<open>10^21\<close>, where JavaScript changes to exponent notation).
\<close>

function digits :: "int \<Rightarrow> string" where
  "digits n = (if n < 10 then [char_of (48 + n)] else digits (n div 10) @ [char_of (48 + n mod 10)])"
  by pat_completeness auto
termination
  by (relation "measure nat") auto

declare digits.simps [simp del]

definition number_string :: "int \<Rightarrow> string" where
  "number_string i = (if i < 0 then CHR ''-'' # digits (- i) else digits i)"

subsection \<open>The \<open>node:path\<close> functions, for POSIX paths\<close>

text \<open>
  \<open>join\<close>, \<open>resolve\<close>, \<open>relative\<close> and \<open>extname\<close> belong to the runtime. They are modelled after
  the POSIX variant of Node's documentation: a path is a string, its segments are the
  non-empty pieces between slashes, normalisation drops \<open>.\<close> segments and lets a \<open>..\<close>
  segment remove the segment before it. In an absolute path a \<open>..\<close> with nothing before it
  is dropped; in a relative path it is kept.
\<close>

definition segments :: "string \<Rightarrow> string list" where
  "segments p = filter (\<lambda>s. s \<noteq> []) (split_on CHR ''/'' p)"

fun normalize_segments :: "bool \<Rightarrow> string list \<Rightarrow> string list \<Rightarrow> string list" where
  "normalize_segments allowAboveRoot acc [] = rev acc"
| "normalize_segments allowAboveRoot acc (s # ss) =
     (if s = [] \<or> s = ''.'' then normalize_segments allowAboveRoot acc ss
      else if s = ''..'' then
        (case acc of
           [] \<Rightarrow> normalize_segments allowAboveRoot (if allowAboveRoot then [''..''] else []) ss
         | a # as \<Rightarrow>
             if a = ''..'' then normalize_segments allowAboveRoot (''..'' # acc) ss
             else normalize_segments allowAboveRoot as ss)
      else normalize_segments allowAboveRoot (s # acc) ss)"

definition isAbsolute :: "string \<Rightarrow> bool" where
  "isAbsolute p = startsWith p ''/''"

definition normalize :: "string \<Rightarrow> string" where
  "normalize p =
     (if p = [] then ''.''
      else
        (let body = join_with CHR ''/'' (normalize_segments (\<not> isAbsolute p) [] (segments p));
             trailing = endsWith p ''/''
         in if body = [] then (if isAbsolute p then ''/'' else if trailing then ''./'' else ''.'')
            else (if isAbsolute p then ''/'' else []) @ body @ (if trailing then ''/'' else [])))"

definition join :: "string list \<Rightarrow> string" where
  "join args =
     (let joined = join_with CHR ''/'' (filter (\<lambda>a. a \<noteq> []) args)
      in if joined = [] then ''.'' else normalize joined)"

text \<open>
  \<open>resolve(p)\<close> with the working directory \<open>cwd\<close> of the process, which is an absolute path:
  an absolute, normalised path without a trailing slash.
\<close>

definition resolve :: "string \<Rightarrow> string \<Rightarrow> string" where
  "resolve cwd p =
     CHR ''/'' # join_with CHR ''/''
        (normalize_segments False [] (segments (if isAbsolute p then p else cwd @ ''/'' @ p)))"

fun common_prefix :: "string list \<Rightarrow> string list \<Rightarrow> nat" where
  "common_prefix (a # as) (b # bs) = (if a = b then Suc (common_prefix as bs) else 0)"
| "common_prefix _ _ = 0"

definition relative :: "string \<Rightarrow> string \<Rightarrow> string \<Rightarrow> string" where
  "relative cwd from to =
     (let f = segments (resolve cwd from); t = segments (resolve cwd to);
          n = common_prefix f t
      in join_with CHR ''/'' (replicate (length f - n) ''..'' @ drop n t))"

text \<open>
  \<open>extname\<close>: from the last dot of the last segment to its end; empty when that segment has
  no dot, when its only dot is its first character, or when it is \<open>..\<close>.
\<close>

definition basename :: "string \<Rightarrow> string" where
  "basename p = (case rev (segments p) of [] \<Rightarrow> [] | b # _ \<Rightarrow> b)"

definition extname :: "string \<Rightarrow> string" where
  "extname p =
     (let b = basename p;
          ext = rev (takeWhile (\<lambda>c. c \<noteq> CHR ''.'') (rev b));
          stem = take (length b - length ext - 1) b
      in if CHR ''.'' \<notin> set b \<or> stem = [] \<or> b = ''..'' then []
         else CHR ''.'' # ext)"

subsection \<open>The file system\<close>

text \<open>
  What \<open>existsSync\<close> and \<open>statSync\<close> see: a path names a directory, with the size and the
  modification time that the file system reports for it, a file with its bytes and its
  modification time, or nothing. Times are in milliseconds. The size of a file is the number
  of its bytes.
\<close>

datatype node = Directory int int | File string int

type_synonym filesystem = "string \<Rightarrow> node option"

definition existsSync :: "filesystem \<Rightarrow> string \<Rightarrow> bool" where
  "existsSync fs p = (fs p \<noteq> None)"

definition isDirectory :: "filesystem \<Rightarrow> string \<Rightarrow> bool" where
  "isDirectory fs p = (case fs p of Some (Directory s t) \<Rightarrow> True | _ \<Rightarrow> False)"

record Stats =
  size :: int
  mtime :: int

text \<open>\<open>statSync\<close> is only called on paths that exist; \<open>None\<close> stands for its throw.\<close>

definition statSync :: "filesystem \<Rightarrow> string \<Rightarrow> Stats option" where
  "statSync fs p =
     (case fs p of
        None \<Rightarrow> None
      | Some (Directory s t) \<Rightarrow> Some \<lparr>size = s, mtime = t\<rparr>
      | Some (File content t) \<Rightarrow> Some \<lparr>size = int (length content), mtime = t\<rparr>)"


section \<open>The static file handler (\<open>server/static.ts\<close>)\<close>

definition MIME_TYPES :: "(string \<times> string) list" where
  "MIME_TYPES =
     [(''.html'', ''text/html; charset=utf-8''),
      (''.css'', ''text/css; charset=utf-8''),
      (''.js'', ''text/javascript; charset=utf-8''),
      (''.mjs'', ''text/javascript; charset=utf-8''),
      (''.json'', ''application/json; charset=utf-8''),
      (''.png'', ''image/png''),
      (''.jpg'', ''image/jpeg''),
      (''.jpeg'', ''image/jpeg''),
      (''.gif'', ''image/gif''),
      (''.svg'', ''image/svg+xml''),
      (''.ico'', ''image/x-icon''),
      (''.webp'', ''image/webp''),
      (''.avif'', ''image/avif''),
      (''.woff'', ''font/woff''),
      (''.woff2'', ''font/woff2''),
      (''.ttf'', ''font/ttf''),
      (''.otf'', ''font/otf''),
      (''.eot'', ''application/vnd.ms-fontobject''),
      (''.mp4'', ''video/mp4''),
      (''.webm'', ''video/webm''),
      (''.mp3'', ''audio/mpeg''),
      (''.ogg'', ''audio/ogg''),
      (''.wav'', ''audio/wav''),
      (''.pdf'', ''application/pdf''),
      (''.xml'', ''application/xml''),
      (''.txt'', ''text/plain; charset=utf-8''),
      (''.map'', ''application/json''),
      (''.wasm'', ''application/wasm'')]"

datatype encoding = Gzip | Br

text \<open>
  The fields of the handler. \<open>cacheControl\<close> is a fixed string or a function of the path;
  \<open>static_headers\<close> is the field \<open>headers\<close>. A pattern of \<open>exclude\<close> is given by what its \<open>test\<close>
  answers at the time of the call: a pattern with the \<open>g\<close> or \<open>y\<close> flag keeps a position
  between calls, so the same pattern may be another predicate at the next call.
  \<open>cwd\<close> is the working directory of the process, which \<open>resolve\<close> and \<open>relative\<close> read.
\<close>

record BunStaticFileHandler =
  cwd :: string
  root :: string
  index :: string
  compression :: bool
  mimeTypes :: "(string, string) jsmap"
  cacheControl :: "string + (string \<Rightarrow> string)"
  static_headers :: headers
  exclude :: "(string \<Rightarrow> bool) list"
  directoryListing :: bool

record StaticFileOptions =
  options_root :: string
  options_index :: "string option"
  options_compression :: "bool option"
  options_mimeTypes :: "(string, string) jsmap option"
  options_cacheControl :: "(string + (string \<Rightarrow> string)) option"
  options_headers :: "headers option"
  options_exclude :: "(string \<Rightarrow> bool) list option"
  options_directoryListing :: "bool option"

record StaticFileResult =
  filePath :: string
  exists :: bool
  mimeType :: string
  result_cacheControl :: string
  compressed :: "encoding option"
  stats :: "Stats option"

text \<open>An object spread \<open>{...a, ...b}\<close>: the entries of \<open>b\<close> are set, in order, on a copy of \<open>a\<close>.\<close>

definition spread :: "('k, 'v) jsmap \<Rightarrow> ('k, 'v) jsmap \<Rightarrow> ('k, 'v) jsmap" where
  "spread a b = foldl (\<lambda>m e. map_set m (fst e) (snd e)) a b"

text \<open>
  \<open>/\.[a-f0-9]{8,}\./i\<close>: a dot, at least eight hexadecimal digits, a dot. The digits after
  a dot are taken as far as they go, since the character that ends them must be the dot.
\<close>

definition is_hex :: "char \<Rightarrow> bool" where
  "is_hex c = (c \<in> set ''0123456789abcdefABCDEF'')"

fun has_hash :: "string \<Rightarrow> bool" where
  "has_hash [] = False"
| "has_hash (c # cs) =
     ((c = CHR ''.'' \<and> 8 \<le> length (takeWhile is_hex cs) \<and>
       startsWith (dropWhile is_hex cs) ''.'') \<or> has_hash cs)"

definition defaultCacheControl :: "string \<Rightarrow> string" where
  "defaultCacheControl path =
     (if toLowerCase (extname path) = ''.html'' then ''no-cache''
      else if has_hash path then ''public, max-age=31536000, immutable''
      else ''public, max-age=86400'')"

definition new_BunStaticFileHandler :: "string \<Rightarrow> StaticFileOptions \<Rightarrow> BunStaticFileHandler" where
  "new_BunStaticFileHandler dir options =
     \<lparr>cwd = dir,
      root = resolve dir (options_root options),
      index = (case options_index options of None \<Rightarrow> ''index.html'' | Some i \<Rightarrow> i),
      compression = (case options_compression options of None \<Rightarrow> True | Some b \<Rightarrow> b),
      mimeTypes = spread MIME_TYPES (case options_mimeTypes options of None \<Rightarrow> [] | Some t \<Rightarrow> t),
      cacheControl = (case options_cacheControl options of
                        None \<Rightarrow> Inr defaultCacheControl | Some cc \<Rightarrow> cc),
      static_headers = (case options_headers options of None \<Rightarrow> [] | Some hs \<Rightarrow> hs),
      exclude = (case options_exclude options of None \<Rightarrow> [] | Some ps \<Rightarrow> ps),
      directoryListing = (case options_directoryListing options of None \<Rightarrow> False | Some b \<Rightarrow> b)\<rparr>"

definition getMimeType :: "BunStaticFileHandler \<Rightarrow> string \<Rightarrow> string" where
  "getMimeType h path =
     (case map_get (mimeTypes h) (toLowerCase (extname path)) of
        None \<Rightarrow> ''application/octet-stream''
      | Some t \<Rightarrow> t)"

definition isExcluded :: "BunStaticFileHandler \<Rightarrow> string \<Rightarrow> bool" where
  "isExcluded h urlPath = list_ex (\<lambda>pattern. pattern urlPath) (exclude h)"

text \<open>
  \<open>replace(/\\/g, '/')\<close> and \<open>replace(/\.\.+/g, '')\<close>: every backslash becomes a slash, and
  every maximal run of two or more dots is removed.
\<close>

definition backslashes_to_slashes :: "string \<Rightarrow> string" where
  "backslashes_to_slashes s = map (\<lambda>c. if c = CHR 0x5C then CHR ''/'' else c) s"

function remove_dot_runs :: "string \<Rightarrow> string" where
  "remove_dot_runs [] = []"
| "remove_dot_runs [c] = [c]"
| "remove_dot_runs (c # d # cs) =
     (if c = CHR ''.'' \<and> d = CHR ''.'' then remove_dot_runs (dropWhile (\<lambda>x. x = CHR ''.'') cs)
      else c # remove_dot_runs (d # cs))"
  by pat_completeness auto
termination
  by (relation "measure length") (auto simp: less_Suc_eq_le intro: le_trans[OF length_dropWhile_le])

definition resolveFilePath :: "BunStaticFileHandler \<Rightarrow> string \<Rightarrow> string" where
  "resolveFilePath h urlPath =
     (let normalized = remove_dot_runs (backslashes_to_slashes urlPath);
          segs = filter (\<lambda>s. s \<noteq> []) (split_on CHR ''/'' normalized)
      in join (root h # segs))"

definition not_found :: StaticFileResult where
  "not_found = \<lparr>filePath = [], exists = False, mimeType = ''application/octet-stream'',
                result_cacheControl = ''no-cache'', compressed = None, stats = None\<rparr>"

text \<open>
  The steps of \<open>lookup\<close> after the traversal check: the index file of a directory, and the
  compressed variant, \<open>.br\<close> before \<open>.gz\<close>, when compression is on.
\<close>

definition directory_index :: "BunStaticFileHandler \<Rightarrow> filesystem \<Rightarrow> string \<Rightarrow> string" where
  "directory_index h fs path =
     (if existsSync fs path \<and> isDirectory fs path then join [path, index h] else path)"

definition compressed_variant ::
  "BunStaticFileHandler \<Rightarrow> filesystem \<Rightarrow> string \<Rightarrow> encoding option" where
  "compressed_variant h fs path =
     (if compression h then
        (if existsSync fs (path @ ''.br'') then Some Br
         else if existsSync fs (path @ ''.gz'') then Some Gzip
         else None)
      else None)"

definition lookup :: "BunStaticFileHandler \<Rightarrow> filesystem \<Rightarrow> string \<Rightarrow> StaticFileResult" where
  "lookup h fs urlPath =
     (if isExcluded h urlPath then not_found
      else
        (let resolved = resolveFilePath h urlPath;
             relativePath = relative (cwd h) (root h) resolved
         in if startsWith relativePath ''..'' \<or> startsWith relativePath ''/'' then not_found
            else
              (let filePath = directory_index h fs resolved;
                   compressed = compressed_variant h fs filePath;
                   actualPath = (case compressed of
                                   Some Br \<Rightarrow> filePath @ ''.br''
                                 | Some Gzip \<Rightarrow> filePath @ ''.gz''
                                 | None \<Rightarrow> filePath)
               in if \<not> existsSync fs actualPath then
                    \<lparr>filePath = filePath, exists = False, mimeType = getMimeType h filePath,
                     result_cacheControl = ''no-cache'', compressed = None, stats = None\<rparr>
                  else
                    \<lparr>filePath = actualPath, exists = True, mimeType = getMimeType h filePath,
                     result_cacheControl = (case cacheControl h of
                                              Inl fixed \<Rightarrow> fixed | Inr f \<Rightarrow> f filePath),
                     compressed = compressed, stats = statSync fs actualPath\<rparr>)))"

text \<open>
  A request, as far as \<open>serve\<close> reads it, is its \<open>headers.get\<close>. A response is its status, its
  headers and its body: the path of the file that \<open>Bun.file\<close> was given, or \<open>None\<close> for \<open>null\<close>.
  \<open>toUTCString\<close> and the \<open>Date\<close> constructor belong to the runtime and are parameters:
  \<open>parse_date s\<close> is the time value of \<open>new Date(s)\<close>, or \<open>None\<close> for an invalid date, whose
  comparisons are all false.
\<close>

type_synonym request = "string \<Rightarrow> string option"

record Response =
  response_status :: int
  response_headers :: headers
  body :: "string option"

record date_env =
  toUTCString :: "int \<Rightarrow> string"
  parse_date :: "string \<Rightarrow> int option"

definition etag_of :: "Stats \<Rightarrow> string" where
  \<open>etag_of st = [CHR 0x22] @ number_string (size st) @ ''-'' @ number_string (mtime st) @ [CHR 0x22]\<close>

text \<open>\<open>replace(/\.(br|gz)$/, '')\<close>.\<close>

definition strip_compression_suffix :: "string \<Rightarrow> string" where
  "strip_compression_suffix p =
     (if endsWith p ''.br'' \<or> endsWith p ''.gz'' then take (length p - 3) p else p)"

definition useCompressed :: "StaticFileResult \<Rightarrow> request option \<Rightarrow> bool" where
  "useCompressed result req =
     (case (compressed result, req) of
        (Some enc, Some r) \<Rightarrow>
          (let acceptEncoding = (case r ''Accept-Encoding'' of None \<Rightarrow> [] | Some a \<Rightarrow> a)
           in if enc = Br \<and> includes_string acceptEncoding ''br'' then True
              else if enc = Gzip \<and> includes_string acceptEncoding ''gzip'' then True
              else False)
      | _ \<Rightarrow> False)"

definition serve_headers ::
  "date_env \<Rightarrow> BunStaticFileHandler \<Rightarrow> StaticFileResult \<Rightarrow> request option \<Rightarrow> headers" where
  "serve_headers d h result req =
     (let h0 = spread [(''Content-Type'', mimeType result),
                       (''Cache-Control'', result_cacheControl result)] (static_headers h);
          h1 = (case compressed result of
                  Some enc \<Rightarrow>
                    if useCompressed result req
                    then map_set h0 ''Content-Encoding'' (if enc = Br then ''br'' else ''gzip'')
                    else h0
                | None \<Rightarrow> h0)
      in (case stats result of
            None \<Rightarrow> h1
          | Some st \<Rightarrow>
              map_set (map_set h1 ''Last-Modified'' (toUTCString d (mtime st)))
                 ''ETag'' (etag_of st)))"

definition not_modified :: "date_env \<Rightarrow> headers \<Rightarrow> Stats \<Rightarrow> request \<Rightarrow> bool" where
  "not_modified d hs st r =
     (if r ''If-None-Match'' = map_get hs ''ETag'' \<and> r ''If-None-Match'' \<noteq> None then True
      else
        (case r ''If-Modified-Since'' of
           None \<Rightarrow> False
         | Some ifModifiedSince \<Rightarrow>
             if ifModifiedSince = [] then False
             else (case parse_date d ifModifiedSince of
                     None \<Rightarrow> False
                   | Some ifModifiedDate \<Rightarrow> mtime st \<le> ifModifiedDate)))"

definition serve ::
  "date_env \<Rightarrow> BunStaticFileHandler \<Rightarrow> filesystem \<Rightarrow> string \<Rightarrow> request option \<Rightarrow>
     Response option" where
  "serve d h fs urlPath req =
     (let result = lookup h fs urlPath
      in if \<not> exists result then None
         else
           (let served = (if useCompressed result req then filePath result
                          else strip_compression_suffix (filePath result));
                hs = serve_headers d h result req
            in (case (req, stats result) of
                  (Some r, Some st) \<Rightarrow>
                    if not_modified d hs st r
                    then Some \<lparr>response_status = 304, response_headers = hs, body = None\<rparr>
                    else Some \<lparr>response_status = 200, response_headers = hs, body = Some served\<rparr>
                | _ \<Rightarrow> Some \<lparr>response_status = 200, response_headers = hs, body = Some served\<rparr>)))"


subsection \<open>Containment in the root\<close>

text \<open>
  A plain segment is a file or directory name: not empty, without a slash, and neither \<open>.\<close>
  nor \<open>..\<close>. A path is a descendant of a root when it is absolute, all its segments are
  plain, and the segments of the root are a proper prefix of its segments.
\<close>

definition plain_segment :: "string \<Rightarrow> bool" where
  "plain_segment s = (s \<noteq> [] \<and> CHR ''/'' \<notin> set s \<and> s \<noteq> ''.'' \<and> s \<noteq> ''..'')"

definition is_descendant :: "string \<Rightarrow> string \<Rightarrow> bool" where
  "is_descendant r p =
     (isAbsolute p \<and> list_all plain_segment (segments p) \<and>
      length (segments r) < length (segments p) \<and>
      take (length (segments r)) (segments p) = segments r)"


text \<open>A string without two dots in a row.\<close>

fun dotdot_free :: "string \<Rightarrow> bool" where
  "dotdot_free (c # d # cs) = (\<not> (c = CHR ''.'' \<and> d = CHR ''.'') \<and> dotdot_free (d # cs))"
| "dotdot_free _ = True"

text \<open>
  A root as \<open>resolve\<close> returns it: a slash followed by plain segments joined by slashes.
\<close>

definition normal_root :: "string \<Rightarrow> string list \<Rightarrow> bool" where
  "normal_root r rs = ((\<forall>s \<in> set rs. plain_segment s) \<and> r = CHR ''/'' # join_with CHR ''/'' rs)"

text \<open>The name of an encoding in \<open>Accept-Encoding\<close> and \<open>Content-Encoding\<close>.\<close>

definition encoding_name :: "encoding \<Rightarrow> string" where
  "encoding_name enc = (if enc = Br then ''br'' else ''gzip'')"

subsection \<open>What a request declares in \<open>Accept-Encoding\<close>\<close>

text \<open>
  The value of \<open>Accept-Encoding\<close> is a list of codings separated by commas, with optional
  spaces and tabs around them. \<open>listed_codings\<close> gives the elements of the list. The value is
  plain when every element is one of the coding names below, so that no element carries a
  parameter such as \<open>;q=0\<close>. A request declares support for a coding when its header lists
  the name of the coding.
\<close>

definition is_list_separator :: "char \<Rightarrow> bool" where
  "is_list_separator c = (c = CHR '','' \<or> c = CHR '' '' \<or> c = CHR 0x09)"

function listed_codings :: "string \<Rightarrow> string list" where
  "listed_codings [] = []"
| "listed_codings (c # cs) =
     (if is_list_separator c then listed_codings cs
      else (c # takeWhile (\<lambda>x. \<not> is_list_separator x) cs) #
           listed_codings (dropWhile (\<lambda>x. \<not> is_list_separator x) cs))"
  by pat_completeness auto
termination
  by (relation "measure length") (auto simp: less_Suc_eq_le length_dropWhile_le)

definition coding_names :: "string list" where
  "coding_names = [''gzip'', ''deflate'', ''br'', ''zstd'', ''compress'', ''identity'', ''*'']"

definition plain_accept_encoding :: "string \<Rightarrow> bool" where
  "plain_accept_encoding a = list_all (\<lambda>t. t \<in> set coding_names) (listed_codings a)"

definition declares_support :: "request option \<Rightarrow> string \<Rightarrow> bool" where
  "declares_support req name =
     (case req of
        None \<Rightarrow> False
      | Some r \<Rightarrow>
          (case r ''Accept-Encoding'' of
             None \<Rightarrow> False
           | Some a \<Rightarrow> name \<in> set (listed_codings a)))"

definition plain_request :: "request option \<Rightarrow> bool" where
  "plain_request req =
     (case req of
        None \<Rightarrow> True
      | Some r \<Rightarrow>
          (case r ''Accept-Encoding'' of
             None \<Rightarrow> True
           | Some a \<Rightarrow> plain_accept_encoding a))"


section \<open>Prerendering (\<open>prerender/prerender.ts\<close>)\<close>

subsection \<open>Route paths\<close>

text \<open>\<open>replace(/\/+/g, '/')\<close>: every run of slashes becomes one slash.\<close>

fun collapse_slashes :: "string \<Rightarrow> string" where
  "collapse_slashes (c # d # cs) =
     (if c = CHR ''/'' \<and> d = CHR ''/'' then collapse_slashes (d # cs)
      else c # collapse_slashes (d # cs))"
| "collapse_slashes cs = cs"

definition normalizePath :: "string \<Rightarrow> string" where
  "normalizePath path =
     collapse_slashes (if \<not> startsWith path ''/'' then ''/'' @ path else path)"

definition pathToOutputFile :: "string \<Rightarrow> string" where
  "pathToOutputFile path =
     (let normalized = normalizePath path
      in if normalized = ''/'' then ''/index.html''
         else (if endsWith normalized ''/'' then butlast normalized else normalized) @
              ''/index.html'')"

text \<open>
  \<open>subject.replace(pattern, replacement)\<close> with a string pattern replaces the first occurrence.
  In the replacement \<open>$$\<close> stands for a dollar sign, \<open>$&\<close> for the matched text, and \<open>$\<close> with a
  backquote or a quote for the text before or after the match; any other dollar sign stands
  for itself.
\<close>

fun find_first :: "string \<Rightarrow> string \<Rightarrow> string \<Rightarrow> (string \<times> string) option" where
  "find_first pattern seen [] = (if pattern = [] then Some (rev seen, []) else None)"
| "find_first pattern seen (c # cs) =
     (if startsWith (c # cs) pattern then Some (rev seen, drop (length pattern) (c # cs))
      else find_first pattern (c # seen) cs)"

fun substitution :: "string \<Rightarrow> string \<Rightarrow> string \<Rightarrow> string \<Rightarrow> string" where
  "substitution matched pre post (c # d # cs) =
     (if c = CHR ''$'' \<and> d = CHR ''$'' then CHR ''$'' # substitution matched pre post cs
      else if c = CHR ''$'' \<and> d = CHR ''&'' then matched @ substitution matched pre post cs
      else if c = CHR ''$'' \<and> d = CHR 0x60 then pre @ substitution matched pre post cs
      else if c = CHR ''$'' \<and> d = CHR 0x27 then post @ substitution matched pre post cs
      else c # substitution matched pre post (d # cs))"
| "substitution matched pre post cs = cs"

definition replace_first :: "string \<Rightarrow> string \<Rightarrow> string \<Rightarrow> string" where
  "replace_first subject pattern replacement =
     (case find_first pattern [] subject of
        None \<Rightarrow> subject
      | Some (pre, post) \<Rightarrow> pre @ substitution pattern pre post replacement @ post)"

text \<open>
  \<open>subject.replace(/\$path/g, replacement)\<close>: every occurrence of \<open>$path\<close>, from left to right;
  the text before and after a match is counted in the whole subject.
\<close>

fun replace_all_from :: "string \<Rightarrow> string \<Rightarrow> string \<Rightarrow> nat \<Rightarrow> string \<Rightarrow> string" where
  "replace_all_from pattern replacement seen skip [] = []"
| "replace_all_from pattern replacement seen skip (c # cs) =
     (if 0 < skip then replace_all_from pattern replacement (c # seen) (skip - 1) cs
      else if pattern \<noteq> [] \<and> startsWith (c # cs) pattern then
        substitution pattern (rev seen) (drop (length pattern) (c # cs)) replacement @
        replace_all_from pattern replacement (c # seen) (length pattern - 1) cs
      else c # replace_all_from pattern replacement (c # seen) 0 cs)"

subsection \<open>Routes, options and results\<close>

text \<open>
  A route is a string or an object. \<open>getParams\<close>, when present, is given by what the awaited
  call yields: the parameter sets, each listed in the order of \<open>Object.entries\<close>, or the
  value it rejects with.
\<close>

record PrerenderRoute =
  path :: string
  getParams :: "(thrown + (string \<times> string) list list) option"
  outputPath :: "string option"

datatype route = Literal string | Parameterized PrerenderRoute

text \<open>
  The engine of the options is given by its \<open>render\<close> called with \<open>skipCache: true\<close>, as a
  function of the url: the engine passed as \<open>engine\<close>, or the one built from
  \<open>engineOptions\<close>; \<open>None\<close> when neither is given. \<open>onProgress\<close> is not a field: its calls are
  recorded in the state of the run.
\<close>

record PrerenderOptions =
  engine :: "(string \<Rightarrow> thrown + RenderResult) option"
  routes :: "route list"
  outputDir :: string
  concurrency :: "int option"
  minify :: "bool option"
  onError :: "(thrown \<Rightarrow> string \<Rightarrow> bool) option"
  shouldGenerateSitemap :: "bool option"
  baseUrl :: "string option"

record RouteRecord =
  record_path :: string
  record_outputPath :: string
  record_success :: bool
  record_error :: "string option"
  record_renderTime :: int

record PrerenderResult =
  total :: nat
  success :: nat
  failed :: nat
  result_routes :: "RouteRecord list"
  totalTime :: int

text \<open>
  What a run gets from outside the repository:
  \<^item> \<open>minifyHtml\<close>, the text transformation of lines 166 to 172, whose four regular-expression
    replacements are not spelled out: no property below depends on the minified text;
  \<^item> \<open>href route base\<close>, the \<open>href\<close> of \<open>new URL(route, base)\<close>, or what the constructor throws;
  \<^item> \<open>io_fails fs p\<close>, the error with which \<open>mkdir\<close> or \<open>writeFile\<close> on the path \<open>p\<close> fails in
    the file system \<open>fs\<close>, \<open>None\<close> when the operation succeeds: the verdict of the operating
    system (a file in the way, permissions, a full disk);
  \<^item> \<open>schedule\<close>, the order in which the tasks of a wave complete;
  \<^item> \<open>directory_size\<close>, the size that the file system reports for a new directory;
  \<^item> \<open>write_time\<close>, \<open>route_time\<close> and \<open>total_time\<close>, the clock readings.
\<close>

record prerender_env =
  minifyHtml :: "string \<Rightarrow> string"
  href :: "string \<Rightarrow> string \<Rightarrow> thrown + string"
  io_fails :: "filesystem \<Rightarrow> string \<Rightarrow> thrown option"
  schedule :: "(string \<times> string) list \<Rightarrow> (string \<times> string) list"
  directory_size :: int
  write_time :: int
  route_time :: "string \<Rightarrow> int"
  total_time :: int

subsection \<open>Writing to the file system\<close>

text \<open>
  \<open>dirname\<close> of \<open>node:path\<close>: the path up to the slash before its last segment, \<open>/\<close> or \<open>.\<close> when
  there is none.
\<close>

definition dirname :: "string \<Rightarrow> string" where
  "dirname p =
     (case p of
        [] \<Rightarrow> ''.''
      | c # cs \<Rightarrow>
          (let r = dropWhile (\<lambda>x. x \<noteq> CHR ''/'') (dropWhile (\<lambda>x. x = CHR ''/'') (rev cs))
           in if r = [] then (if c = CHR ''/'' then ''/'' else ''.'')
              else if c = CHR ''/'' \<and> length r = 1 then ''//''
              else take (length r) p))"

text \<open>
  The directories that \<open>mkdir(p, {recursive: true})\<close> makes where they are missing: \<open>p\<close> and
  the paths that end before each of its slashes.
\<close>

fun path_prefixes :: "string \<Rightarrow> string \<Rightarrow> string list" where
  "path_prefixes seen [] = [rev seen]"
| "path_prefixes seen (c # cs) =
     (if c = CHR ''/'' \<and> seen \<noteq> [] \<and> hd seen \<noteq> CHR ''/''
      then rev seen # path_prefixes (c # seen) cs
      else path_prefixes (c # seen) cs)"

text \<open>
  The disk: what the paths name, and the successful calls of \<open>writeFile\<close> so far, each with
  its path and its text, in the order in which they were made.
\<close>

record disk_state =
  nodes :: filesystem
  writes :: "(string \<times> string) list"

definition mkdir_recursive :: "prerender_env \<Rightarrow> disk_state \<Rightarrow> string \<Rightarrow> thrown + disk_state" where
  "mkdir_recursive w d p =
     (case io_fails w (nodes d) p of
        Some err \<Rightarrow> Inl err
      | None \<Rightarrow>
          Inr (d\<lparr>nodes := (\<lambda>q. if q \<in> set (path_prefixes [] p) \<and> nodes d q = None
                              then Some (Directory (directory_size w) (write_time w))
                              else nodes d q)\<rparr>))"

definition writeFile ::
  "prerender_env \<Rightarrow> disk_state \<Rightarrow> string \<Rightarrow> string \<Rightarrow> thrown + disk_state" where
  "writeFile w d p content =
     (case io_fails w (nodes d) p of
        Some err \<Rightarrow> Inl err
      | None \<Rightarrow>
          Inr (d\<lparr>nodes := (nodes d)(p \<mapsto> File content (write_time w)),
                 writes := writes d @ [(p, content)]\<rparr>))"

subsection \<open>The steps of \<open>prerenderRoutes\<close>\<close>

fun substitute_params :: "string \<Rightarrow> (string \<times> string) list \<Rightarrow> string" where
  "substitute_params expanded [] = expanded"
| "substitute_params expanded ((key, v) # params) =
     substitute_params
       (replace_first (replace_first expanded (CHR '':'' # key) v) (''['' @ key @ '']'') v)
       params"

definition expandRoute :: "PrerenderRoute \<Rightarrow> thrown + string list" where
  "expandRoute r =
     (case getParams r of
        None \<Rightarrow> Inr [path r]
      | Some (Inl err) \<Rightarrow> Inl err
      | Some (Inr paramSets) \<Rightarrow> Inr (map (substitute_params (path r)) paramSets))"

text \<open>The loop over the routes: the tasks, each a path with its output path.\<close>

fun expand_routes :: "route list \<Rightarrow> thrown + (string \<times> string) list" where
  "expand_routes [] = Inr []"
| "expand_routes (Literal p # rs) =
     (case expand_routes rs of
        Inl err \<Rightarrow> Inl err
      | Inr tasks \<Rightarrow> Inr ((p, pathToOutputFile p) # tasks))"
| "expand_routes (Parameterized r # rs) =
     (case expandRoute r of
        Inl err \<Rightarrow> Inl err
      | Inr paths \<Rightarrow>
          (case expand_routes rs of
             Inl err \<Rightarrow> Inl err
           | Inr tasks \<Rightarrow>
               Inr (map (\<lambda>p. (p, (case outputPath r of
                                      None \<Rightarrow> pathToOutputFile p
                                    | Some out \<Rightarrow>
                                        if out = [] then pathToOutputFile p
                                        else replace_all_from ''$path'' p [] 0 out))) paths
                    @ tasks)))"

text \<open>
  \<open>generateSitemap\<close>: one \<open>url\<close> element for each route, in order, between the two header
  lines and the closing tag.
\<close>

fun resolve_all :: "prerender_env \<Rightarrow> string \<Rightarrow> string list \<Rightarrow> thrown + string list" where
  "resolve_all w base [] = Inr []"
| "resolve_all w base (r # rs) =
     (case href w r base of
        Inl err \<Rightarrow> Inl err
      | Inr loc \<Rightarrow> (case resolve_all w base rs of Inl err \<Rightarrow> Inl err | Inr locs \<Rightarrow> Inr (loc # locs)))"

definition url_element :: "string \<Rightarrow> string" where
  \<open>url_element loc = join_lines
     [''  <url>'',
      ''    <loc>'' @ loc @ ''</loc>'',
      ''    <changefreq>weekly</changefreq>'',
      ''  </url>'']\<close>

definition sitemap_document :: "string list \<Rightarrow> string" where
  \<open>sitemap_document locs = join_lines
     [''<?xml version="1.0" encoding="UTF-8"?>'',
      ''<urlset xmlns="http://www.sitemaps.org/schemas/sitemap/0.9">'',
      join_lines (map url_element locs),
      ''</urlset>'']\<close>

definition generateSitemap :: "prerender_env \<Rightarrow> string list \<Rightarrow> string \<Rightarrow> thrown + string" where
  "generateSitemap w rs base =
     (case resolve_all w base rs of
        Inl err \<Rightarrow> Inl err
      | Inr locs \<Rightarrow> Inr (sitemap_document locs))"

text \<open>
  \<open>array.slice(start, end)\<close>: a negative index counts from the end, and both indices are
  clamped to the array.
\<close>

definition slice :: "'a list \<Rightarrow> int \<Rightarrow> int \<Rightarrow> 'a list" where
  "slice xs first_index end_index =
     (let n = int (length xs);
          k = (if first_index < 0 then max (n + first_index) 0 else min first_index n);
          final = (if end_index < 0 then max (n + end_index) 0 else min end_index n)
      in take (nat (final - k)) (drop (nat k) xs))"

text \<open>
  \<open>chunk\<close>: the \<open>for\<close> loop adds the chunk size to \<open>i\<close> until \<open>i\<close> reaches the length of the array. The
  result is \<open>None\<close> when the loop does not end. Arrays are unbounded here: a loop that does
  not end pushes chunks for as long as the memory of the engine and its greatest array
  length allow.
\<close>

partial_function (option) chunk_loop ::
  "'a list \<Rightarrow> int \<Rightarrow> int \<Rightarrow> 'a list list \<Rightarrow> 'a list list option" where
  "chunk_loop array n i chunks =
     (if i < int (length array)
      then chunk_loop array n (i + n) (chunks @ [slice array i (i + n)])
      else Some chunks)"

definition chunk :: "'a list \<Rightarrow> int \<Rightarrow> 'a list list option" where
  "chunk array n = chunk_loop array n 0 []"

text \<open>
  The state of a run: the result under construction, the counter \<open>completed\<close>, the file
  system, and the calls of \<open>onProgress\<close> made so far.
\<close>

record run_state =
  run_result :: PrerenderResult
  run_completed :: nat
  run_disk :: disk_state
  run_progress :: "(nat \<times> nat \<times> string) list"

text \<open>
  The body of the \<open>try\<close> of one task: the render, the check of its status, the directory and
  the file. It returns what it throws, if anything, and the file system it leaves.
\<close>

definition attempt ::
  "prerender_env \<Rightarrow> PrerenderOptions \<Rightarrow> (string \<Rightarrow> thrown + RenderResult) \<Rightarrow> disk_state \<Rightarrow>
     string \<Rightarrow> string \<Rightarrow> thrown option \<times> disk_state" where
  "attempt w options render_url d url_path fullOutputPath =
     (case render_url url_path of
        Inl err \<Rightarrow> (Some err, d)
      | Inr renderResult \<Rightarrow>
          if status renderResult \<noteq> 200
          then (Some (Error (''Render returned status '' @ number_string (status renderResult))), d)
          else
            (let text = (if minify options = Some True then minifyHtml w (html renderResult)
                         else html renderResult);
                 dir = dirname fullOutputPath
             in (case (if \<not> existsSync (nodes d) dir then mkdir_recursive w d dir else Inr d) of
                   Inl err \<Rightarrow> (Some err, d)
                 | Inr d1 \<Rightarrow>
                     (case writeFile w d1 fullOutputPath text of
                        Inl err \<Rightarrow> (Some err, d1)
                      | Inr d2 \<Rightarrow> (None, d2)))))"

text \<open>
  One task with its \<open>catch\<close>: the state after it, and the error it throws on when \<open>onError\<close>
  returned \<open>false\<close>.
\<close>

definition run_task ::
  "prerender_env \<Rightarrow> PrerenderOptions \<Rightarrow> (string \<Rightarrow> thrown + RenderResult) \<Rightarrow> run_state \<Rightarrow>
     string \<times> string \<Rightarrow> thrown option \<times> run_state" where
  "run_task w options render_url st task =
     (let url_path = fst task;
          fullOutputPath = join [outputDir options, snd task];
          r = run_result st
      in (case attempt w options render_url (run_disk st) url_path fullOutputPath of
            (None, d) \<Rightarrow>
              (None,
               st\<lparr>run_completed := Suc (run_completed st),
                  run_progress := run_progress st @ [(Suc (run_completed st), total r, url_path)],
                  run_disk := d,
                  run_result := r\<lparr>success := Suc (success r),
                               result_routes := result_routes r @
                                 [\<lparr>record_path = url_path, record_outputPath = fullOutputPath,
                                   record_success = True, record_error = None,
                                   record_renderTime = route_time w url_path\<rparr>]\<rparr>\<rparr>)
          | (Some err, d) \<Rightarrow>
              (let shouldContinue =
                     (case onError options of
                        None \<Rightarrow> None
                      | Some callback \<Rightarrow>
                          Some (callback (case err of NonError \<Rightarrow> Error ''Unknown error'' | _ \<Rightarrow> err)
                                  url_path))
               in (if shouldContinue = Some False then Some err else None,
                   st\<lparr>run_completed := Suc (run_completed st),
                      run_progress := run_progress st @ [(Suc (run_completed st), total r, url_path)],
                      run_disk := d,
                      run_result := r\<lparr>failed := Suc (failed r),
                                   result_routes := result_routes r @
                                     [\<lparr>record_path = url_path, record_outputPath = fullOutputPath,
                                       record_success = False,
                                       record_error = Some (errorMessage err),
                                       record_renderTime = route_time w url_path\<rparr>]\<rparr>\<rparr>))))"

text \<open>
  The tasks of a wave, in the order in which they complete. \<open>Promise.all\<close> rejects with the
  first error thrown; the other tasks of the wave still run to their end.
\<close>

fun run_tasks ::
  "prerender_env \<Rightarrow> PrerenderOptions \<Rightarrow> (string \<Rightarrow> thrown + RenderResult) \<Rightarrow> run_state \<Rightarrow>
     (string \<times> string) list \<Rightarrow> thrown option \<times> run_state" where
  "run_tasks w options render_url st [] = (None, st)"
| "run_tasks w options render_url st (task # tasks) =
     (case run_task w options render_url st task of
        (thrown1, st1) \<Rightarrow>
          (case run_tasks w options render_url st1 tasks of
             (thrown2, st2) \<Rightarrow> ((case thrown1 of None \<Rightarrow> thrown2 | Some err \<Rightarrow> Some err), st2)))"

text \<open>The waves, one after another; a wave that rejects ends the loop.\<close>

fun run_chunks ::
  "prerender_env \<Rightarrow> PrerenderOptions \<Rightarrow> (string \<Rightarrow> thrown + RenderResult) \<Rightarrow> run_state \<Rightarrow>
     (string \<times> string) list list \<Rightarrow> thrown option \<times> run_state" where
  "run_chunks w options render_url st [] = (None, st)"
| "run_chunks w options render_url st (routeChunk # chunks) =
     (case run_tasks w options render_url st (schedule w routeChunk) of
        (Some err, st1) \<Rightarrow> (Some err, st1)
      | (None, st1) \<Rightarrow> run_chunks w options render_url st1 chunks)"

text \<open>The paths of the successful records, in the order of the records.\<close>

definition successfulRoutes :: "PrerenderResult \<Rightarrow> string list" where
  "successfulRoutes r = map record_path (filter record_success (result_routes r))"

text \<open>The end of \<open>prerenderRoutes\<close>: the sitemap, and the total time.\<close>

definition finish ::
  "prerender_env \<Rightarrow> PrerenderOptions \<Rightarrow> run_state \<Rightarrow> (thrown + PrerenderResult) \<times> disk_state" where
  "finish w options st =
     (if shouldGenerateSitemap options \<noteq> Some False \<and> 0 < success (run_result st) then
        (case generateSitemap w (successfulRoutes (run_result st))
                (case baseUrl options of None \<Rightarrow> ''http://localhost'' | Some b \<Rightarrow> b) of
           Inl err \<Rightarrow> (Inl err, run_disk st)
         | Inr sitemapContent \<Rightarrow>
             (case writeFile w (run_disk st) (join [outputDir options, ''sitemap.xml''])
                     sitemapContent of
                Inl err \<Rightarrow> (Inl err, run_disk st)
              | Inr d \<Rightarrow> (Inr ((run_result st)\<lparr>totalTime := total_time w\<rparr>), d)))
      else (Inr ((run_result st)\<lparr>totalTime := total_time w\<rparr>), run_disk st))"

text \<open>
  \<open>prerenderRoutes\<close>: \<open>None\<close> when the call does not return; otherwise the result or what the
  promise rejects with, and the disk at that moment.
\<close>

definition prerenderRoutes ::
  "prerender_env \<Rightarrow> PrerenderOptions \<Rightarrow> disk_state \<Rightarrow>
     ((thrown + PrerenderResult) \<times> disk_state) option" where
  "prerenderRoutes w options d =
     (case engine options of
        None \<Rightarrow> Some (Inl (Error ''Either engine or engineOptions must be provided''), d)
      | Some render_url \<Rightarrow>
          (case expand_routes (routes options) of
             Inl err \<Rightarrow> Some (Inl err, d)
           | Inr expandedRoutes \<Rightarrow>
               (case (if \<not> existsSync (nodes d) (outputDir options)
                      then mkdir_recursive w d (outputDir options) else Inr d) of
                  Inl err \<Rightarrow> Some (Inl err, d)
                | Inr d1 \<Rightarrow>
                    (case chunk expandedRoutes
                            (case concurrency options of None \<Rightarrow> 5 | Some n \<Rightarrow> n) of
                       None \<Rightarrow> None
                     | Some chunks \<Rightarrow>
                         (case run_chunks w options render_url
                                 \<lparr>run_result = \<lparr>total = length expandedRoutes, success = 0,
                                             failed = 0, result_routes = [], totalTime = 0\<rparr>,
                                  run_completed = 0, run_disk = d1, run_progress = []\<rparr> chunks of
                            (Some err, st) \<Rightarrow> Some (Inl err, run_disk st)
                          | (None, st) \<Rightarrow> Some (finish w options st))))))"


declare chunk_loop.simps [code]

subsection \<open>What a task is expected to leave\<close>










section \<open>Example configurations\<close>

text \<open>
  A site under \<open>/srv/www\<close>, with a page, a script that has both compressed variants, and a
  file outside the root. The two versions of the site differ only in the bytes of the page,
  which keeps its length and its modification time.
\<close>

definition site_options :: StaticFileOptions where
  "site_options =
     \<lparr>options_root = ''/srv/www'', options_index = None, options_compression = None,
      options_mimeTypes = None, options_cacheControl = None, options_headers = None,
      options_exclude = None, options_directoryListing = None\<rparr>"

definition site_handler :: BunStaticFileHandler where
  "site_handler = new_BunStaticFileHandler ''/'' site_options"

definition site_fs :: filesystem where
  "site_fs = map_of
     [(''/srv/www'', Directory 4096 1700000000000),
      (''/srv/www/index.html'', File ''<p>old</p>'' 1700000000123),
      (''/srv/www/app.js'', File ''let x = 1;'' 1700000000456),
      (''/srv/www/app.js.br'', File ''brotli'' 1700000000457),
      (''/srv/www/app.js.gz'', File ''gzipped'' 1700000000458),
      (''/srv/secret.html'', File ''secret'' 1600000000000)]"

definition site_fs_changed :: filesystem where
  "site_fs_changed = site_fs(''/srv/www/index.html'' \<mapsto> File ''<p>new</p>'' 1700000000123)"

text \<open>The same site with an index name that leaves the root, and with a custom header.\<close>

definition escaping_handler :: BunStaticFileHandler where
  "escaping_handler =
     new_BunStaticFileHandler ''/'' (site_options\<lparr>options_index := Some ''../secret.html''\<rparr>)"

definition encoding_header_handler :: BunStaticFileHandler where
  "encoding_header_handler =
     new_BunStaticFileHandler ''/''
       (site_options\<lparr>options_headers := Some [(''Content-Encoding'', ''gzip'')]\<rparr>)"

text \<open>
  Stand-ins for the date functions of the runtime in the examples: the time value in decimal
  as its printed form, and no header that parses.
\<close>

definition plain_dates :: date_env where
  "plain_dates = \<lparr>toUTCString = number_string, parse_date = (\<lambda>s. None)\<rparr>"

definition request_with :: "(string \<times> string) list \<Rightarrow> request" where
  "request_with hs = map_of hs"

text \<open>A url that climbs with \<open>..\<close>, once after a backslash: \<open>/../..\<close>, a backslash, \<open>../app.js\<close>.\<close>

definition climbing_url :: string where
  "climbing_url = ''/../..'' @ [CHR 0x5C] @ ''../app.js''"


text \<open>
  A prerender run. The engine is the engine of this development with the cache off, over
  an external render that throws for \<open>/b\<close> and wraps every other url in a paragraph. The
  waves complete in reverse order, no file operation fails, and a url is resolved by
  appending it to the base, which is what \<open>new URL\<close> yields for a path that starts with a
  slash and a base without a path.
\<close>

definition example_render_env :: render_env where
  "example_render_env =
     \<lparr>parse_url = (\<lambda>u. Some (u, [])),
      read_index = Some (Inr ''<html></html>''),
      renderApplication = (\<lambda>doc u. if u = ''/b'' then Inl (Error ''boom'')
                                    else Inr (''<p>'' @ u @ ''</p>'')),
      now_valid = 0, now_timestamp = 0, now_expires = 0,
      production = True, elapsed = 1\<rparr>"

definition example_engine :: BunAngularEngine where
  "example_engine =
     \<lparr>indexHtmlPath = ''/dist/index.html'', indexHtmlContent = None,
      engine_cache = None, cacheTtl = 300000\<rparr>"

definition example_render :: "string \<Rightarrow> thrown + RenderResult" where
  "example_render u =
     fst (render example_render_env example_engine \<lparr>url = u, document = None, skipCache = True\<rparr>)"

definition example_prerender_env :: prerender_env where
  "example_prerender_env =
     \<lparr>minifyHtml = (\<lambda>s. s), href = (\<lambda>r base. Inr (base @ r)), io_fails = (\<lambda>fs p. None),
      schedule = rev, directory_size = 4096, write_time = 1700000000000,
      route_time = (\<lambda>p. 1), total_time = 9\<rparr>"




definition zero_concurrency_options :: PrerenderOptions where
  "zero_concurrency_options =
     \<lparr>engine = Some example_render, routes = [Literal ''/''],
      outputDir = ''/out'', concurrency = Some 0, minify = None, onError = None,
      shouldGenerateSitemap = None, baseUrl = None\<rparr>"

definition empty_disk :: disk_state where
  "empty_disk = \<lparr>nodes = (\<lambda>p. None), writes = []\<rparr>"

text \<open>What of the outcome of a run can be compared: the result and the writes.\<close>

definition result_and_writes ::
  "((thrown + PrerenderResult) \<times> disk_state) option \<Rightarrow>
     ((thrown + PrerenderResult) \<times> (string \<times> string) list) option" where
  "result_and_writes outcome = map_option (\<lambda>x. (fst x, writes (snd x))) outcome"


section \<open>Properties of the cache\<close>

lemma touch_time_snoc:
  "touch_time (calls @ [c]) k = (if touches c k then Suc (length calls) else touch_time calls k)"
  by (simp add: touch_time_def)

lemma touch_time_le: "touch_time calls k \<le> length calls"
  unfolding touch_time_def
  by (metis length_dropWhile_le length_rev)

lemma keys_map_delete: "map fst (map_delete m k) = filter (\<lambda>k'. k' \<noteq> k) (map fst m)"
  by (induction m) (auto simp: map_delete_def)

lemma keys_map_set_new: "\<not> map_has m k \<Longrightarrow> map fst (map_set m k v) = map fst m @ [k]"
  by (simp add: map_set_def)

lemma keys_map_set_old: "map_has m k \<Longrightarrow> map fst (map_set m k v) = map fst m"
  by (induction m) (auto simp: map_set_def map_has_def)

lemma not_has_map_delete: "\<not> map_has (map_delete m k) k"
  by (simp add: map_has_def keys_map_delete)

lemma recency_ordered_filter:
  "recency_ordered calls ks \<Longrightarrow> recency_ordered calls (filter P ks)"
  by (auto simp: recency_ordered_def sorted_wrt_filter)

lemma recency_ordered_touch:
  assumes "recency_ordered calls ks" "touches c k" "k \<notin> set ks"
  shows "recency_ordered (calls @ [c]) (ks @ [k])"
proof -
  have old: "touch_time (calls @ [c]) k' = touch_time calls k'" if "k' \<in> set ks" for k'
    using that assms by (cases c) (auto simp: touch_time_snoc)
  have new: "touch_time (calls @ [c]) k = Suc (length calls)"
    using assms by (simp add: touch_time_snoc)
  have "sorted_wrt (\<lambda>a b. touch_time (calls @ [c]) a < touch_time (calls @ [c]) b) ks"
    using assms(1) old unfolding recency_ordered_def
    by (metis (mono_tags, lifting) sorted_wrt_mono_rel)
  moreover have "touch_time (calls @ [c]) k' < touch_time (calls @ [c]) k" if "k' \<in> set ks" for k'
    using old[OF that] new touch_time_le[of calls k'] by simp
  moreover have "0 < touch_time (calls @ [c]) k'" if "k' \<in> set ks" for k'
    using old[OF that] assms(1) that by (simp add: recency_ordered_def)
  ultimately show ?thesis
    using assms new by (auto simp: recency_ordered_def sorted_wrt_append)
qed

lemma recency_ordered_untouched:
  assumes "recency_ordered calls ks" "\<forall>k \<in> set ks. \<not> touches c k"
  shows "recency_ordered (calls @ [c]) ks"
proof -
  have old: "touch_time (calls @ [c]) k' = touch_time calls k'" if "k' \<in> set ks" for k'
    using that assms by (auto simp: touch_time_snoc)
  have "sorted_wrt (\<lambda>a b. touch_time (calls @ [c]) a < touch_time (calls @ [c]) b) ks"
    using assms(1) old unfolding recency_ordered_def
    by (metis (mono_tags, lifting) sorted_wrt_mono_rel)
  then show ?thesis using assms old by (auto simp: recency_ordered_def)
qed

lemma cache_keys_get:
  "cache_keys (snd (cache_get c k)) =
     (if k \<in> set (cache_keys c) then filter (\<lambda>k'. k' \<noteq> k) (cache_keys c) @ [k] else cache_keys c)"
  by (auto simp: cache_get_def cache_keys_def map_get_def map_has_def keys_map_delete
      keys_map_set_new not_has_map_delete[unfolded map_has_def] map_of_eq_None_iff
      split: option.splits)

lemma cache_keys_set:
  "cache_keys (cache_set c k v) =
     (if k \<in> set (cache_keys c) then filter (\<lambda>k'. k' \<noteq> k) (cache_keys c) @ [k]
      else if maxSize c \<le> int (length (cache_keys c)) \<and> cache_keys c \<noteq> []
        then filter (\<lambda>k'. k' \<noteq> hd (cache_keys c)) (cache_keys c) @ [k]
      else cache_keys c @ [k])"
  apply (auto simp: cache_set_def cache_keys_def map_has_def keys_map_delete map_size_def
      keys_map_set_new not_has_map_delete[unfolded map_has_def] map_first_key_def Let_def split: list.splits)
  done


lemma run_snoc: "run c (calls @ [x]) = call (run c calls) x"
  by (simp add: run_def)

lemma maxSize_call: "maxSize (call c x) = maxSize c"
  by (cases x) (auto simp: cache_get_def cache_set_def cache_delete_def cache_clear_def Let_def
      split: option.splits)

lemma maxSize_run: "maxSize (run c calls) = maxSize c"
  by (induction calls rule: rev_induct) (simp_all add: run_snoc maxSize_call run_def)

lemma recency_ordered_run:
  "recency_ordered calls (cache_keys (run (new_LRUCache C) calls))"
proof (induction calls rule: rev_induct)
  case Nil
  then show ?case by (simp add: run_def new_LRUCache_def cache_keys_def recency_ordered_def)
next
  case (snoc x calls)
  let ?c = "run (new_LRUCache C) calls"
  let ?ks = "cache_keys ?c"
  have touch: "recency_ordered (calls @ [x]) (filter P ?ks @ [k])"
    if "touches x k" "k \<notin> set (filter P ?ks)" for P k
    using recency_ordered_touch[OF recency_ordered_filter[OF snoc.IH] that] .
  show ?case
  proof (cases x)
    case (Get k)
    show ?thesis
    proof (cases "k \<in> set ?ks")
      case True
      then show ?thesis using touch[of k "\<lambda>k'. k' \<noteq> k"] Get
        by (simp add: run_snoc cache_keys_get)
    next
      case False
      then have "\<forall>k' \<in> set ?ks. \<not> touches x k'" using Get by auto
      from recency_ordered_untouched[OF snoc.IH this] False Get show ?thesis
        by (simp add: run_snoc cache_keys_get)
    qed
  next
    case (Set k v)
    show ?thesis
    proof (cases "k \<in> set ?ks")
      case True
      then show ?thesis using touch[of k "\<lambda>k'. k' \<noteq> k"] Set
        by (simp add: run_snoc cache_keys_set)
    next
      case False
      then have a: "k \<notin> set (filter P ?ks)" for P by simp
      have b: "recency_ordered (calls @ [x]) (?ks @ [k])"
        using recency_ordered_touch[OF snoc.IH _ False, of x] Set by simp
      show ?thesis using touch[OF _ a] b Set False
        by (simp add: run_snoc cache_keys_set)
    qed
  next
    case (Has k)
    then show ?thesis using recency_ordered_untouched[OF snoc.IH, of x]
      by (simp add: run_snoc)
  next
    case (Delete k)
    then show ?thesis
      using recency_ordered_untouched[OF recency_ordered_filter[OF snoc.IH, of "\<lambda>k'. k' \<noteq> k"], of x]
      by (simp add: run_snoc cache_delete_def cache_keys_def keys_map_delete)
  next
    case Clear
    then show ?thesis
      by (simp add: run_snoc cache_clear_def cache_keys_def recency_ordered_def)
  qed
qed

lemma length_filter_hd:
  "distinct ks \<Longrightarrow> ks \<noteq> [] \<Longrightarrow> filter (\<lambda>k'. k' \<noteq> hd ks) ks = tl ks"
  by (cases ks) (auto simp: filter_id_conv)

lemma size_run:
  assumes "1 \<le> C"
  shows "int (cache_size (run (new_LRUCache C) calls)) \<le> C"
proof (induction calls rule: rev_induct)
  case Nil
  then show ?case using assms by (simp add: run_def new_LRUCache_def cache_size_def map_size_def)
next
  case (snoc x calls)
  let ?c = "run (new_LRUCache C) calls"
  have sz: "cache_size c = length (cache_keys c)" for c :: "'a LRUCache"
    by (simp add: cache_size_def cache_keys_def map_size_def)
  have d: "distinct (cache_keys ?c)"
    using recency_ordered_run[of calls C] by (simp add: recency_ordered_def)
  have m: "maxSize ?c = C" by (simp add: maxSize_run new_LRUCache_def)
  have f: "length (filter P (cache_keys ?c)) \<le> length (cache_keys ?c)" for P by simp
  show ?case
  proof (cases x)
    case (Get k)
    have "length (filter (\<lambda>k'. k' \<noteq> k) (cache_keys ?c)) < length (cache_keys ?c)"
      if "k \<in> set (cache_keys ?c)"
      using that by (simp add: length_filter_less)
    then show ?thesis using snoc Get
      by (auto simp: run_snoc sz cache_keys_get)
  next
    case (Set k v)
    have "length (filter (\<lambda>k'. k' \<noteq> k) (cache_keys ?c)) < length (cache_keys ?c)"
      if "k \<in> set (cache_keys ?c)"
      using that by (simp add: length_filter_less)
    then show ?thesis using snoc Set d m assms
      by (auto simp: run_snoc sz cache_keys_set length_filter_hd)
  next
    case (Has k)
    then show ?thesis using snoc by (simp add: run_snoc)
  next
    case (Delete k)
    have "length (map_delete (cache ?c) k) \<le> length (cache ?c)"
      by (simp add: map_delete_def)
    then show ?thesis using snoc Delete
      by (simp add: run_snoc cache_size_def map_size_def cache_delete_def)
  next
    case Clear
    then show ?thesis using assms by (simp add: run_snoc cache_clear_def sz cache_keys_def)
  qed
qed

text \<open>
  C1. Start from an empty cache of capacity \<open>C \<ge> 1\<close> and perform any sequence of calls.
  The cache then holds at most \<open>C\<close> entries. If it is full and \<open>set\<close> is called with a key
  it does not hold, exactly one entry leaves: its key is a current key whose last touch (by
  \<open>get\<close> or \<open>set\<close>) is earlier than the last touch of every other current key; all other
  entries stay, in their order, and the new entry is appended.
\<close>

theorem lru_capacity_and_eviction:
  assumes "1 \<le> C"
  shows "let c = run (new_LRUCache C) calls in
           int (cache_size c) \<le> C \<and>
           (\<not> cache_has c k \<and> C \<le> int (cache_size c) \<longrightarrow>
              (\<exists>victim \<in> set (cache_keys c).
                 (\<forall>k' \<in> set (cache_keys c). k' \<noteq> victim \<longrightarrow>
                    touch_time calls victim < touch_time calls k') \<and>
                 cache (cache_set c k v) = filter (\<lambda>e. fst e \<noteq> victim) (cache c) @ [(k, v)] \<and>
                 cache_size (cache_set c k v) = cache_size c))"
proof -
  define c where "c = run (new_LRUCache C) calls"
  have bound: "int (cache_size c) \<le> C"
    unfolding c_def by (rule size_run[OF assms])
  have ro: "recency_ordered calls (cache_keys c)"
    unfolding c_def by (rule recency_ordered_run)
  have m: "maxSize c = C"
    by (simp add: c_def maxSize_run new_LRUCache_def)
  have evict: "\<exists>victim \<in> set (cache_keys c).
                 (\<forall>k' \<in> set (cache_keys c). k' \<noteq> victim \<longrightarrow>
                    touch_time calls victim < touch_time calls k') \<and>
                 cache (cache_set c k v) = filter (\<lambda>e. fst e \<noteq> victim) (cache c) @ [(k, v)] \<and>
                 cache_size (cache_set c k v) = cache_size c"
    if new: "\<not> cache_has c k" and full: "C \<le> int (cache_size c)"
  proof -
    from full assms obtain e es where ces: "cache c = e # es"
      by (cases "cache c") (auto simp: cache_size_def map_size_def)
    then have ks: "cache_keys c = fst e # map fst es"
      by (simp add: cache_keys_def)
    have d: "fst e \<notin> set (map fst es)"
      using ro unfolding ks recency_ordered_def by simp
    have lt: "\<forall>k' \<in> set (map fst es). touch_time calls (fst e) < touch_time calls k'"
      using ro unfolding ks recency_ordered_def by simp
    have fe: "filter (\<lambda>x. fst x \<noteq> fst e) es = es"
    proof -
      have "\<forall>x \<in> set es. fst x \<noteq> fst e" using d by (metis imageI list.set_map)
      then show ?thesis by (simp add: filter_id_conv)
    qed
    have nk: "k \<noteq> fst e" "k \<notin> fst ` set es"
      using new ces by (auto simp: cache_has_def map_has_def)
    then have nh: "\<not> map_has es k" by (simp add: map_has_def)
    have res: "cache (cache_set c k v) = es @ [(k, v)]"
      using new full m ces fe nh
      by (simp add: cache_set_def cache_has_def cache_size_def map_size_def map_first_key_def
          map_delete_def map_set_def)
    show ?thesis
    proof (rule bexI[of _ "fst e"])
      show "fst e \<in> set (cache_keys c)" by (simp add: ks)
      show "(\<forall>k' \<in> set (cache_keys c). k' \<noteq> fst e \<longrightarrow>
                touch_time calls (fst e) < touch_time calls k') \<and>
            cache (cache_set c k v) = filter (\<lambda>x. fst x \<noteq> fst e) (cache c) @ [(k, v)] \<and>
            cache_size (cache_set c k v) = cache_size c"
        using lt res fe by (simp add: ks ces cache_size_def map_size_def)
    qed
  qed
  show ?thesis
    using bound evict unfolding c_def[symmetric] Let_def by blast
qed

theorem lru_capacity_and_eviction_witness:
  "let calls = [Set ''a'' ''A'', Set ''b'' ''B'', Get ''a''];
       c = run (new_LRUCache 2) calls in
     (1::int) \<le> 2 \<and> \<not> cache_has c ''c'' \<and> 2 \<le> int (cache_size c) \<and>
     cache c = [(''b'', ''B''), (''a'', ''A'')] \<and>
     touch_time calls ''b'' = 2 \<and> touch_time calls ''a'' = 3 \<and>
     cache (cache_set c ''c'' ''C'') = [(''a'', ''A''), (''c'', ''C'')] \<and>
     (\<exists>victim \<in> set (cache_keys c).
         (\<forall>k' \<in> set (cache_keys c). k' \<noteq> victim \<longrightarrow>
            touch_time calls victim < touch_time calls k') \<and>
         cache (cache_set c ''c'' ''C'') =
           filter (\<lambda>e. fst e \<noteq> victim) (cache c) @ [(''c'', ''C'')] \<and>
         cache_size (cache_set c ''c'' ''C'') = cache_size c)"
proof -
  define calls where "calls = [Set ''a'' ''A'', Set ''b'' ''B'', Get ''a'']"
  define c where "c = run (new_LRUCache 2) calls"
  have c: "cache c = [(''b'', ''B''), (''a'', ''A'')]"
    unfolding c_def calls_def by code_simp
  have h: "\<not> cache_has c ''c''" "2 \<le> int (cache_size c)"
    unfolding c_def calls_def by code_simp+
  have t: "touch_time calls ''b'' = 2" "touch_time calls ''a'' = 3"
    unfolding calls_def by code_simp+
  have s: "cache (cache_set c ''c'' ''C'') = [(''a'', ''A''), (''c'', ''C'')]"
    unfolding c_def calls_def by code_simp
  have "(1::int) \<le> 2" by simp
  note T = lru_capacity_and_eviction[OF this, of calls "''c''" "''C''", unfolded Let_def, folded c_def]
  have E: "\<exists>victim \<in> set (cache_keys c).
         (\<forall>k' \<in> set (cache_keys c). k' \<noteq> victim \<longrightarrow>
            touch_time calls victim < touch_time calls k') \<and>
         cache (cache_set c ''c'' ''C'') =
           filter (\<lambda>e. fst e \<noteq> victim) (cache c) @ [(''c'', ''C'')] \<and>
         cache_size (cache_set c ''c'' ''C'') = cache_size c"
    using T h by (elim conjE impE) (rule conjI)
  show ?thesis
    unfolding Let_def calls_def[symmetric] c_def[symmetric]
    by (intro conjI \<open>(1::int) \<le> 2\<close> h c t s E)
qed


section \<open>Properties of the render engine\<close>

lemma map_has_iff_get: "map_has m k \<longleftrightarrow> map_get m k \<noteq> None"
  by (simp add: map_has_def map_get_def map_of_eq_None_iff)

lemma map_of_overwrite:
  "k \<in> fst ` set m \<Longrightarrow> map_of (map (\<lambda>e. if fst e = k then (k, v) else e) m) k = Some v"
  by (induction m) auto

lemma map_of_snoc_new: "k \<notin> fst ` set m \<Longrightarrow> map_of (m @ [(k, v)]) k = Some v"
  by (induction m) auto

lemma map_get_set_same: "map_get (map_set m k v) k = Some v"
proof (cases "k \<in> fst ` set m")
  case True
  then show ?thesis
    by (simp add: map_get_def map_set_def map_has_def map_of_overwrite)
next
  case False
  then show ?thesis
    using map_of_snoc_new[OF False, of v] by (simp add: map_get_def map_set_def map_has_def)
qed

lemma cache_get_present:
  "map_get (cache c) k = Some v \<Longrightarrow>
     cache_get c k = (Some v, c\<lparr>cache := map_set (map_delete (cache c) k) k v\<rparr>)"
  by (simp add: cache_get_def map_has_iff_get)

lemma fromCache_render_fresh: "\<not> fromCache (fst (render_fresh w e options key))"
  by (auto simp: render_fresh_def try_render_def Let_def split: prod.splits sum.splits option.splits)

text \<open>
  What the \<open>catch\<close> branch returns, and that it leaves the cache as the \<open>try\<close> block found it:
  when the body of the \<open>try\<close> throws, the result has status 500 and the error page as its
  body, and the cache of the engine is the cache the \<open>try\<close> block started from.
\<close>

lemma try_render_throw_keeps_cache:
  "try_render w e options key = (Inl err, e1) \<Longrightarrow> engine_cache e1 = engine_cache e"
  by (auto simp: try_render_def getDocument_def loadIndexHtml_def Let_def
      split: prod.splits sum.splits option.splits if_splits)

lemma render_fresh_on_throw:
  "try_render w e options key = (Inl err, e1) \<Longrightarrow>
     render_fresh w e options key =
       (\<lparr>html = renderErrorPage w (errorMessage err), status = 500,
         headers = [(''Content-Type'', ''text/html; charset=utf-8'')],
         fromCache = False, renderTime = elapsed w\<rparr>, e1)"
  by (simp add: render_fresh_def)

lemma render_returns_when_url_parses:
  "parse_url w (url options) \<noteq> None \<Longrightarrow> \<exists>result. fst (render w e options) = Inr result"
  by (auto simp: render_def getCacheKey_def split: option.splits prod.splits)

text \<open>
  C3. \<open>render\<close> computes the cache key with \<open>new URL(options.url, 'http://localhost')\<close> before it
  enters its \<open>try\<close> block. When that constructor throws, as it does for the url \<open>//\<close>, the
  \<open>TypeError\<close> leaves \<open>render\<close>: the caller gets a rejected promise and no \<open>RenderResult\<close>.
\<close>

theorem render_throws_on_invalid_url:
  "parse_url w (url options) = None \<Longrightarrow>
     render w e options = (Inl (TypeError ''Invalid URL''), e)"
  by (simp add: render_def getCacheKey_def)

theorem render_throws_on_invalid_url_witness:
  "let w = \<lparr>parse_url = (\<lambda>u. if u = ''//'' then None else Some (u, [])),
            read_index = Some (Inr ''<html></html>''),
            renderApplication = (\<lambda>d u. Inr d),
            now_valid = 0, now_timestamp = 0, now_expires = 0,
            production = False, elapsed = 1\<rparr>;
       e = \<lparr>indexHtmlPath = ''/dist/index.html'', indexHtmlContent = None,
            engine_cache = Some (new_LRUCache 100), cacheTtl = 300000\<rparr>;
       options = \<lparr>url = ''//'', document = None, skipCache = False\<rparr>
   in parse_url w (url options) = None \<and>
      render w e options = (Inl (TypeError ''Invalid URL''), e)"
proof -
  define w where "w = \<lparr>parse_url = (\<lambda>u. if u = ''//'' then None else Some (u, [])),
            read_index = Some (Inr ''<html></html>''),
            renderApplication = (\<lambda>d u. Inr d),
            now_valid = 0, now_timestamp = 0, now_expires = 0,
            production = False, elapsed = 1\<rparr>"
  define options where "options = \<lparr>url = ''//'', document = None, skipCache = False\<rparr>"
  have h: "parse_url w (url options) = None"
    by (simp add: w_def options_def)
  show ?thesis
    unfolding Let_def w_def[symmetric] options_def[symmetric]
    using h render_throws_on_invalid_url[OF h] by simp
qed

lemma getCacheKey_Inr:
  "getCacheKey w u = Inr key \<Longrightarrow> \<exists>pathname search. parse_url w u = Some (pathname, search) \<and>
     key = pathname @ search"
  by (auto simp: getCacheKey_def split: option.splits prod.splits)

lemma getDocument_cache:
  "getDocument w (e\<lparr>engine_cache := x\<rparr>) doc =
     (fst (getDocument w e doc), (snd (getDocument w e doc))\<lparr>engine_cache := x\<rparr>)"
  by (auto simp: getDocument_def loadIndexHtml_def split: option.splits sum.splits)

lemma getDocument_keeps:
  "engine_cache (snd (getDocument w e doc)) = engine_cache e"
  "cacheTtl (snd (getDocument w e doc)) = cacheTtl e"
  by (auto simp: getDocument_def loadIndexHtml_def split: option.splits sum.splits)

text \<open>
  What the \<open>try\<close> block returns when the cache is on and \<open>skipCache\<close> is off, in terms of the
  document and of the external render: the page it rendered, stored under the key, or the
  error it threw.
\<close>

lemma try_render_rendered:
  assumes "parse_url w (url options) = Some (pathname, search)"
    and "engine_cache e = Some c" and "\<not> skipCache options"
    and "fst (getDocument w e (document options)) = Inr doc"
    and "renderApplication w doc (pathname @ search) = Inr rendered"
  shows "try_render w e options key =
           (Inr \<lparr>html = rendered, status = 200,
                 headers = [(''Content-Type'', ''text/html; charset=utf-8''),
                            (''X-Rendered-By'', ''bun-angular-ssr'')],
                 fromCache = False, renderTime = elapsed w\<rparr>,
            (snd (getDocument w e (document options)))\<lparr>engine_cache := Some (cache_set c key
               \<lparr>entry_html = rendered, entry_status = 200,
                entry_headers = [(''Content-Type'', ''text/html; charset=utf-8''),
                                 (''X-Rendered-By'', ''bun-angular-ssr'')],
                timestamp = now_timestamp w, expiresAt = now_expires w + cacheTtl e\<rparr>)\<rparr>)"
proof -
  obtain e1 where g: "getDocument w e (document options) = (Inr doc, e1)"
    using assms(4) by (cases "getDocument w e (document options)") auto
  have k: "engine_cache e1 = Some c" "cacheTtl e1 = cacheTtl e"
    using getDocument_keeps[of w e "document options"] g assms(2) by simp_all
  show ?thesis
    using assms(1,3,5) g k by (simp add: try_render_def Let_def)
qed

lemma try_render_thrown:
  assumes "parse_url w (url options) = Some (pathname, search)"
    and "fst (getDocument w e (document options)) = Inl err \<or>
         (\<exists>doc. fst (getDocument w e (document options)) = Inr doc \<and>
                renderApplication w doc (pathname @ search) = Inl err)"
  shows "fst (try_render w e options key) = Inl err"
  using assms
  by (cases "getDocument w e (document options)")
     (auto simp: try_render_def Let_def split: sum.splits)

lemma cache_set_get: "map_get (cache (cache_set c key v)) key = Some v"
  by (simp add: cache_set_def Let_def map_get_set_same)

text \<open>
  C4. Caching is on, \<open>skipCache\<close> is false, and the cache holds under the key of the request
  an entry whose \<open>expiresAt\<close> is not after the current time. Then the lookup serves nothing,
  although the cache still has the key with the stale entry after it, and \<open>render\<close> returns a
  result with \<open>fromCache = false\<close> that comes from a fresh render: when the document is
  found and the external render yields a page, the result is that page with status 200, and
  the cache then holds that page under the key, stamped with the time of the render plus the
  time to live; when the document is missing or the external render throws, the result is the
  error page with status 500. In no case is the stored entry returned.
\<close>

theorem expired_entry_not_served:
  assumes "getCacheKey w (url options) = Inr key"
    and "engine_cache e = Some c"
    and "\<not> skipCache options"
    and "map_get (cache c) key = Some entry"
    and "expiresAt entry \<le> now_valid w"
  shows "fst (cache_check w e options key) = None \<and>
         (\<exists>c1. engine_cache (snd (cache_check w e options key)) = Some c1 \<and>
               cache_has c1 key \<and> map_get (cache c1) key = Some entry) \<and>
         render w e options =
           (Inr (fst (render_fresh w (snd (cache_check w e options key)) options key)),
            snd (render_fresh w (snd (cache_check w e options key)) options key)) \<and>
         \<not> fromCache (fst (render_fresh w (snd (cache_check w e options key)) options key)) \<and>
         (\<forall>doc rendered.
            fst (getDocument w e (document options)) = Inr doc \<and>
            renderApplication w doc key = Inr rendered \<longrightarrow>
              fst (render w e options) =
                Inr \<lparr>html = rendered, status = 200,
                     headers = [(''Content-Type'', ''text/html; charset=utf-8''),
                                (''X-Rendered-By'', ''bun-angular-ssr'')],
                     fromCache = False, renderTime = elapsed w\<rparr> \<and>
              (\<exists>c2. engine_cache (snd (render w e options)) = Some c2 \<and>
                 map_get (cache c2) key =
                   Some \<lparr>entry_html = rendered, entry_status = 200,
                         entry_headers = [(''Content-Type'', ''text/html; charset=utf-8''),
                                          (''X-Rendered-By'', ''bun-angular-ssr'')],
                         timestamp = now_timestamp w,
                         expiresAt = now_expires w + cacheTtl e\<rparr>)) \<and>
         (\<forall>err.
            fst (getDocument w e (document options)) = Inl err \<or>
            (\<exists>doc. fst (getDocument w e (document options)) = Inr doc \<and>
                   renderApplication w doc key = Inl err) \<longrightarrow>
              fst (render w e options) =
                Inr \<lparr>html = renderErrorPage w (errorMessage err), status = 500,
                     headers = [(''Content-Type'', ''text/html; charset=utf-8'')],
                     fromCache = False, renderTime = elapsed w\<rparr>)"
proof -
  let ?c1 = "c\<lparr>cache := map_set (map_delete (cache c) key) key entry\<rparr>"
  let ?e1 = "e\<lparr>engine_cache := Some ?c1\<rparr>"
  obtain pathname search where pu: "parse_url w (url options) = Some (pathname, search)"
    and key: "key = pathname @ search"
    using getCacheKey_Inr[OF assms(1)] by blast
  have chk: "cache_check w e options key = (None, ?e1)"
    using assms by (simp add: cache_check_def cache_get_present isCacheValid_def)
  have g: "map_get (cache ?c1) key = Some entry"
    by (simp add: map_get_set_same)
  then have h: "cache_has ?c1 key"
    by (simp add: cache_has_def map_has_iff_get)
  have r: "render w e options =
           (Inr (fst (render_fresh w ?e1 options key)), snd (render_fresh w ?e1 options key))"
    using assms(1) chk by (simp add: render_def split: prod.splits)
  have doc1: "fst (getDocument w ?e1 (document options)) = fst (getDocument w e (document options))"
    by (simp add: getDocument_cache)
  have ttl: "cacheTtl ?e1 = cacheTtl e" by simp
  have fresh: "fst (render w e options) =
                Inr \<lparr>html = rendered, status = 200,
                     headers = [(''Content-Type'', ''text/html; charset=utf-8''),
                                (''X-Rendered-By'', ''bun-angular-ssr'')],
                     fromCache = False, renderTime = elapsed w\<rparr> \<and>
              (\<exists>c2. engine_cache (snd (render w e options)) = Some c2 \<and>
                 map_get (cache c2) key =
                   Some \<lparr>entry_html = rendered, entry_status = 200,
                         entry_headers = [(''Content-Type'', ''text/html; charset=utf-8''),
                                          (''X-Rendered-By'', ''bun-angular-ssr'')],
                         timestamp = now_timestamp w,
                         expiresAt = now_expires w + cacheTtl e\<rparr>)"
    if d: "fst (getDocument w e (document options)) = Inr doc"
      and a: "renderApplication w doc key = Inr rendered" for doc rendered
  proof -
    have "engine_cache ?e1 = Some ?c1" by simp
    from try_render_rendered[OF pu this assms(3), of doc rendered key] d a doc1 key ttl
    have t: "try_render w ?e1 options key =
           (Inr \<lparr>html = rendered, status = 200,
                 headers = [(''Content-Type'', ''text/html; charset=utf-8''),
                            (''X-Rendered-By'', ''bun-angular-ssr'')],
                 fromCache = False, renderTime = elapsed w\<rparr>,
            (snd (getDocument w ?e1 (document options)))\<lparr>engine_cache := Some (cache_set ?c1 key
               \<lparr>entry_html = rendered, entry_status = 200,
                entry_headers = [(''Content-Type'', ''text/html; charset=utf-8''),
                                 (''X-Rendered-By'', ''bun-angular-ssr'')],
                timestamp = now_timestamp w, expiresAt = now_expires w + cacheTtl e\<rparr>)\<rparr>)"
      by simp
    show ?thesis
      unfolding r by (simp add: render_fresh_def t cache_set_get)
  qed
  have failed: "fst (render w e options) =
                Inr \<lparr>html = renderErrorPage w (errorMessage err), status = 500,
                     headers = [(''Content-Type'', ''text/html; charset=utf-8'')],
                     fromCache = False, renderTime = elapsed w\<rparr>"
    if f: "fst (getDocument w e (document options)) = Inl err \<or>
            (\<exists>doc. fst (getDocument w e (document options)) = Inr doc \<and>
                   renderApplication w doc key = Inl err)" for err
  proof -
    have "fst (try_render w ?e1 options key) = Inl err"
      using try_render_thrown[OF pu, of ?e1 err key] f doc1 key by simp
    then obtain e2 where "try_render w ?e1 options key = (Inl err, e2)"
      by (cases "try_render w ?e1 options key") auto
    then show ?thesis unfolding r by (simp add: render_fresh_def)
  qed
  show ?thesis
    using chk g h r fromCache_render_fresh fresh failed by simp
qed

theorem expired_entry_not_served_witness:
  "let w = \<lparr>parse_url = (\<lambda>u. Some (u, [])),
            read_index = Some (Inr ''<html></html>''),
            renderApplication = (\<lambda>d u. Inr (''fresh '' @ u)),
            now_valid = 1000, now_timestamp = 1001, now_expires = 1002,
            production = False, elapsed = 1\<rparr>;
       stale = \<lparr>entry_html = ''stale'', entry_status = 200, entry_headers = [],
                timestamp = 0, expiresAt = 1000\<rparr>;
       c = \<lparr>cache = [(''/a'', stale)], maxSize = 100\<rparr>;
       e = \<lparr>indexHtmlPath = ''/dist/index.html'', indexHtmlContent = None,
            engine_cache = Some c, cacheTtl = 300000\<rparr>;
       options = \<lparr>url = ''/a'', document = None, skipCache = False\<rparr>
   in getCacheKey w (url options) = Inr ''/a'' \<and> engine_cache e = Some c \<and>
      \<not> skipCache options \<and> map_get (cache c) ''/a'' = Some stale \<and>
      expiresAt stale \<le> now_valid w \<and>
      fst (getDocument w e (document options)) = Inr ''<html></html>'' \<and>
      renderApplication w ''<html></html>'' ''/a'' = Inr ''fresh /a'' \<and>
      fst (cache_check w e options ''/a'') = None \<and>
      fst (render w e options) =
        Inr \<lparr>html = ''fresh /a'', status = 200,
             headers = [(''Content-Type'', ''text/html; charset=utf-8''),
                        (''X-Rendered-By'', ''bun-angular-ssr'')],
             fromCache = False, renderTime = 1\<rparr> \<and>
      (\<exists>c2. engine_cache (snd (render w e options)) = Some c2 \<and>
         map_get (cache c2) ''/a'' =
           Some \<lparr>entry_html = ''fresh /a'', entry_status = 200,
                 entry_headers = [(''Content-Type'', ''text/html; charset=utf-8''),
                                  (''X-Rendered-By'', ''bun-angular-ssr'')],
                 timestamp = 1001, expiresAt = 301002\<rparr>)"
proof -
  define w where "w = \<lparr>parse_url = (\<lambda>u. Some (u, [])),
            read_index = Some (Inr ''<html></html>''),
            renderApplication = (\<lambda>d u. Inr (''fresh '' @ u)),
            now_valid = 1000, now_timestamp = 1001, now_expires = 1002,
            production = False, elapsed = 1\<rparr>"
  define stale where "stale = \<lparr>entry_html = ''stale'', entry_status = 200, entry_headers = [],
                timestamp = 0, expiresAt = 1000\<rparr>"
  define c where "c = \<lparr>cache = [(''/a'', stale)], maxSize = 100\<rparr>"
  define e where "e = \<lparr>indexHtmlPath = ''/dist/index.html'', indexHtmlContent = None,
            engine_cache = Some c, cacheTtl = 300000\<rparr>"
  define options where "options = \<lparr>url = ''/a'', document = None, skipCache = False\<rparr>"
  have h1: "getCacheKey w (url options) = Inr ''/a''"
    by (simp add: getCacheKey_def w_def options_def)
  have h2: "engine_cache e = Some c" by (simp add: e_def)
  have h3: "\<not> skipCache options" by (simp add: options_def)
  have h4: "map_get (cache c) ''/a'' = Some stale" by (simp add: c_def map_get_def)
  have h5: "expiresAt stale \<le> now_valid w" by (simp add: stale_def w_def)
  have d: "fst (getDocument w e (document options)) = Inr ''<html></html>''"
    by (simp add: getDocument_def loadIndexHtml_def w_def e_def options_def)
  have a: "renderApplication w ''<html></html>'' ''/a'' = Inr ''fresh /a''"
    by (simp add: w_def)
  have v: "elapsed w = 1" "now_timestamp w = 1001" "now_expires w + cacheTtl e = 301002"
    by (simp_all add: w_def e_def)
  note T = expired_entry_not_served[OF h1 h2 h3 h4 h5]
  have t1: "fst (cache_check w e options ''/a'') = None" using T by blast
  have "fst (render w e options) =
                Inr \<lparr>html = ''fresh /a'', status = 200,
                     headers = [(''Content-Type'', ''text/html; charset=utf-8''),
                                (''X-Rendered-By'', ''bun-angular-ssr'')],
                     fromCache = False, renderTime = elapsed w\<rparr> \<and>
              (\<exists>c2. engine_cache (snd (render w e options)) = Some c2 \<and>
                 map_get (cache c2) ''/a'' =
                   Some \<lparr>entry_html = ''fresh /a'', entry_status = 200,
                         entry_headers = [(''Content-Type'', ''text/html; charset=utf-8''),
                                          (''X-Rendered-By'', ''bun-angular-ssr'')],
                         timestamp = now_timestamp w,
                         expiresAt = now_expires w + cacheTtl e\<rparr>)"
    using T d a by blast
  then have t2: "fst (render w e options) =
        Inr \<lparr>html = ''fresh /a'', status = 200,
             headers = [(''Content-Type'', ''text/html; charset=utf-8''),
                        (''X-Rendered-By'', ''bun-angular-ssr'')],
             fromCache = False, renderTime = 1\<rparr> \<and>
      (\<exists>c2. engine_cache (snd (render w e options)) = Some c2 \<and>
         map_get (cache c2) ''/a'' =
           Some \<lparr>entry_html = ''fresh /a'', entry_status = 200,
                 entry_headers = [(''Content-Type'', ''text/html; charset=utf-8''),
                                  (''X-Rendered-By'', ''bun-angular-ssr'')],
                 timestamp = 1001, expiresAt = 301002\<rparr>)"
    unfolding v .
  show ?thesis
    unfolding Let_def w_def[symmetric] stale_def[symmetric] c_def[symmetric] e_def[symmetric]
      options_def[symmetric]
    using h1 h2 h3 h4 h5 d a t1 t2 by (intro conjI) (simp_all only:, blast?)
qed


section \<open>Properties of the static file handler\<close>

subsection \<open>Paths\<close>

lemma split_on_not_Nil: "split_on c s \<noteq> []"
  by (induction s) (auto split: list.splits)

lemma split_on_append:
  "split_on c (a @ c # b) = split_on c a @ split_on c b"
  by (induction a) (auto split: list.splits simp: split_on_not_Nil)

lemma split_on_single: "c \<notin> set x \<Longrightarrow> split_on c x = [x]"
  by (induction x) auto

lemma split_on_no_sep: "x \<in> set (split_on c s) \<Longrightarrow> c \<notin> set x"
  by (induction s arbitrary: x) (auto split: list.splits if_splits)

lemma segments_append: "segments (a @ CHR ''/'' # b) = segments a @ segments b"
  by (simp add: segments_def split_on_append)

lemma segments_slash: "segments (CHR ''/'' # b) = segments b"
  by (simp add: segments_def)

lemma segments_Nil: "segments [] = []"
  by (simp add: segments_def)

lemma segments_single: "s \<noteq> [] \<Longrightarrow> CHR ''/'' \<notin> set s \<Longrightarrow> segments s = [s]"
  by (simp add: segments_def split_on_single)

lemma segments_props: "s \<in> set (segments p) \<Longrightarrow> s \<noteq> [] \<and> CHR ''/'' \<notin> set s"
  by (auto simp: segments_def dest: split_on_no_sep)

lemma join_with_Cons:
  "join_with c (x # xs) = (if xs = [] then x else x @ c # join_with c xs)"
  by (cases xs) simp_all

lemma segments_join_with:
  "segments (join_with CHR ''/'' xs) = concat (map segments xs)"
  by (induction xs) (simp_all add: segments_Nil segments_append join_with_Cons)

lemma concat_segments_plain:
  "\<forall>s \<in> set xs. s \<noteq> [] \<and> CHR ''/'' \<notin> set s \<Longrightarrow> concat (map segments xs) = xs"
  by (induction xs) (simp_all add: segments_single)

lemma segments_abs_join:
  "\<forall>s \<in> set xs. s \<noteq> [] \<and> CHR ''/'' \<notin> set s \<Longrightarrow>
     segments (CHR ''/'' # join_with CHR ''/'' xs) = xs"
  by (simp add: segments_slash segments_join_with concat_segments_plain)

lemma normalize_segments_no_dotdot:
  "\<forall>s \<in> set ss. s \<noteq> [] \<and> s \<noteq> ''..'' \<Longrightarrow>
     normalize_segments b acc ss = rev acc @ filter (\<lambda>s. s \<noteq> ''.'') ss"
  by (induction ss arbitrary: acc) auto

lemma normalize_segments_plain:
  "\<forall>s \<in> set acc. plain_segment s \<Longrightarrow> \<forall>s \<in> set ss. CHR ''/'' \<notin> set s \<Longrightarrow>
     \<forall>s \<in> set (normalize_segments False acc ss). plain_segment s"
proof (induction ss arbitrary: acc)
  case Nil
  then show ?case by simp
next
  case (Cons s ss)
  show ?case
  proof (cases "s = [] \<or> s = ''.''")
    case True
    then show ?thesis using Cons by auto
  next
    case False
    show ?thesis
    proof (cases "s = ''..''")
      case True
      show ?thesis
      proof (cases acc)
        case Nil
        then show ?thesis using True Cons.IH[of "[]"] Cons.prems by simp
      next
        case (Cons a as)
        then have "a \<noteq> ''..''" using Cons.prems(1) by (auto simp: plain_segment_def)
        moreover have "\<forall>s \<in> set as. plain_segment s" using Cons Cons.prems(1) by simp
        ultimately show ?thesis using True Cons Cons.IH[of as] Cons.prems(2) by simp
      qed
    next
      case nd: False
      have "plain_segment s" using False nd Cons.prems(2) by (simp add: plain_segment_def)
      then have "\<forall>x \<in> set (s # acc). plain_segment x" using Cons.prems(1) by simp
      from Cons.IH[OF this] Cons.prems(2) False nd show ?thesis by simp
    qed
  qed
qed


lemma normal_root_resolve: "\<exists>rs. normal_root (resolve dir p) rs"
proof -
  let ?ss = "segments (if isAbsolute p then p else dir @ ''/'' @ p)"
  have "\<forall>s \<in> set ?ss. CHR ''/'' \<notin> set s" using segments_props by blast
  then have "\<forall>s \<in> set (normalize_segments False [] ?ss). plain_segment s"
    by (intro normalize_segments_plain) simp_all
  then show ?thesis
    unfolding normal_root_def resolve_def by blast
qed

lemma plain_segmentD:
  "plain_segment s \<Longrightarrow> s \<noteq> [] \<and> CHR ''/'' \<notin> set s \<and> s \<noteq> ''.'' \<and> s \<noteq> ''..''"
  by (simp add: plain_segment_def)

lemma normalize_segments_id:
  "\<forall>s \<in> set ss. plain_segment s \<Longrightarrow> normalize_segments b [] ss = ss"
proof -
  assume a: "\<forall>s \<in> set ss. plain_segment s"
  then have "\<forall>s \<in> set ss. s \<noteq> [] \<and> s \<noteq> ''..''" by (simp add: plain_segment_def)
  from normalize_segments_no_dotdot[OF this, of b "[]"] a show ?thesis
    by (simp add: plain_segment_def filter_id_conv)
qed

lemma isAbsolute_slash: "isAbsolute (CHR ''/'' # p)"
  by (simp add: isAbsolute_def startsWith_def)

lemma resolve_normal:
  assumes "\<forall>s \<in> set qs. plain_segment s"
  shows "resolve dir (CHR ''/'' # join_with CHR ''/'' qs) = CHR ''/'' # join_with CHR ''/'' qs"
proof -
  have "segments (CHR ''/'' # join_with CHR ''/'' qs) = qs"
    using assms by (intro segments_abs_join) (simp add: plain_segment_def)
  then show ?thesis
    using assms by (simp add: resolve_def isAbsolute_slash normalize_segments_id)
qed

lemma common_prefix_append: "common_prefix xs (xs @ ys) = length xs"
  by (induction xs) auto


lemma dotdot_free_Cons:
  "dotdot_free (c # r) \<longleftrightarrow> \<not> (c = CHR ''.'' \<and> r \<noteq> [] \<and> hd r = CHR ''.'') \<and> dotdot_free r"
  by (cases r) auto

lemma remove_dot_runs_hd:
  "remove_dot_runs s \<noteq> [] \<Longrightarrow> hd (remove_dot_runs s) = CHR ''.'' \<Longrightarrow> s \<noteq> [] \<and> hd s = CHR ''.''"
  by (cases s rule: remove_dot_runs.cases) (auto split: if_splits)

lemma dotdot_free_remove_dot_runs: "dotdot_free (remove_dot_runs s)"
proof (induction s rule: remove_dot_runs.induct)
  case 1
  then show ?case by simp
next
  case (2 c)
  then show ?case by simp
next
  case (3 c d cs)
  show ?case
  proof (cases "c = CHR ''.'' \<and> d = CHR ''.''")
    case True
    then show ?thesis using 3 by simp
  next
    case False
    then have ih: "dotdot_free (remove_dot_runs (d # cs))" using 3 by simp
    have "\<not> (c = CHR ''.'' \<and> remove_dot_runs (d # cs) \<noteq> [] \<and>
              hd (remove_dot_runs (d # cs)) = CHR ''.'')"
      using False remove_dot_runs_hd[of "d # cs"] by auto
    moreover have eq: "remove_dot_runs (c # d # cs) = c # remove_dot_runs (d # cs)"
      using False by (subst remove_dot_runs.simps(3)) (auto simp del: remove_dot_runs.simps)
    ultimately show ?thesis using ih unfolding eq
      by (simp only: dotdot_free_Cons) blast
  qed
qed

lemma split_on_hd:
  "split_on c s = x # rest \<Longrightarrow> x \<noteq> [] \<Longrightarrow> s \<noteq> [] \<and> hd s = hd x"
  by (cases s) (auto split: if_splits list.splits)

lemma dotdot_free_split_on:
  "dotdot_free s \<Longrightarrow> x \<in> set (split_on c s) \<Longrightarrow> dotdot_free x"
proof (induction s arbitrary: x)
  case Nil
  then show ?case by simp
next
  case (Cons a s)
  have tl: "dotdot_free s" using Cons.prems(1) by (simp add: dotdot_free_Cons)
  show ?case
  proof (cases "a = c")
    case True
    then show ?thesis using Cons tl by auto
  next
    case False
    obtain y rest where sp: "split_on c s = y # rest"
      using split_on_not_Nil[of c s] by (cases "split_on c s") auto
    then have x: "x = a # y \<or> x \<in> set rest" using Cons.prems(2) False by simp
    have "dotdot_free (a # y)"
    proof -
      have "dotdot_free y" using Cons.IH[OF tl, of y] sp by simp
      moreover have "\<not> (a = CHR ''.'' \<and> y \<noteq> [] \<and> hd y = CHR ''.'')"
        using split_on_hd[OF sp] Cons.prems(1) by (auto simp: dotdot_free_Cons)
      ultimately show ?thesis by (simp add: dotdot_free_Cons)
    qed
    moreover have "dotdot_free x" if "x \<in> set rest"
      using Cons.IH[OF tl, of x] sp that by simp
    ultimately show ?thesis using x by blast
  qed
qed

lemma join_with_nonempty_last:
  "xs \<noteq> [] \<Longrightarrow> last xs \<noteq> [] \<Longrightarrow>
     join_with c xs \<noteq> [] \<and> last (join_with c xs) = last (last xs)"
  by (induction xs) (auto simp: join_with_Cons)

lemma endsWith_slash: "endsWith s ''/'' \<longleftrightarrow> s \<noteq> [] \<and> last s = CHR ''/''"
proof (cases s rule: rev_cases)
  case Nil
  then show ?thesis by (simp add: endsWith_def)
next
  case (snoc ys y)
  then show ?thesis by (auto simp: endsWith_def)
qed

text \<open>The segments that the url contributes.\<close>

lemma url_segments:
  assumes "x \<in> set (filter (\<lambda>s. s \<noteq> []) (split_on CHR ''/''
             (remove_dot_runs (backslashes_to_slashes urlPath))))"
  shows "x \<noteq> [] \<and> CHR ''/'' \<notin> set x \<and> dotdot_free x"
  using assms dotdot_free_split_on[OF dotdot_free_remove_dot_runs] split_on_no_sep
  by fastforce

lemma join_root_segments:
  assumes nr: "normal_root r rs"
    and segs: "\<forall>x \<in> set segs. x \<noteq> [] \<and> CHR ''/'' \<notin> set x \<and> x \<noteq> ''..''"
  shows "join (r # segs) = CHR ''/'' # join_with CHR ''/'' (rs @ filter (\<lambda>s. s \<noteq> ''.'') segs)"
proof -
  let ?j = "join_with CHR ''/'' (r # segs)"
  have r: "r = CHR ''/'' # join_with CHR ''/'' rs" and rs: "\<forall>s \<in> set rs. plain_segment s"
    using nr by (simp_all add: normal_root_def)
  have ne: "filter (\<lambda>a. a \<noteq> []) (r # segs) = r # segs"
    using segs r by (simp add: filter_id_conv)
  have j: "?j = CHR ''/'' # tl ?j" "?j \<noteq> []"
    using r by (simp_all add: join_with_Cons)
  then have abs: "isAbsolute ?j"
    by (metis isAbsolute_slash)
  have sr: "segments r = rs"
    unfolding r using rs by (intro segments_abs_join) (simp add: plain_segment_def)
  have "segments ?j = segments r @ concat (map segments segs)"
    by (simp add: segments_join_with)
  also have "concat (map segments segs) = segs"
    using segs by (intro concat_segments_plain) simp
  finally have sj: "segments ?j = rs @ segs" using sr by simp
  have "\<forall>s \<in> set (rs @ segs). s \<noteq> [] \<and> s \<noteq> ''..''"
    using rs segs by (auto simp: plain_segment_def)
  from normalize_segments_no_dotdot[OF this, of False "[]"]
  have ns: "normalize_segments False [] (segments ?j) = rs @ filter (\<lambda>s. s \<noteq> ''.'') segs"
    using rs by (simp add: sj plain_segment_def filter_id_conv)
  let ?body = "join_with CHR ''/'' (rs @ filter (\<lambda>s. s \<noteq> ''.'') segs)"
  have trail: "?body = [] \<or> \<not> endsWith ?j ''/''"
  proof (cases "segs = []")
    case True
    show ?thesis
    proof (cases "rs = []")
      case True
      then show ?thesis using \<open>segs = []\<close> by simp
    next
      case False
      then have "last rs \<noteq> []" "CHR ''/'' \<notin> set (last rs)"
        using rs last_in_set[OF False] by (auto simp: plain_segment_def)
      then have "last (join_with CHR ''/'' rs) \<noteq> CHR ''/''" "join_with CHR ''/'' rs \<noteq> []"
        using join_with_nonempty_last[OF False, of "CHR ''/''"] last_in_set by metis+
      then show ?thesis using True r by (simp add: endsWith_slash)
    qed
  next
    case False
    then have l: "last (r # segs) = last segs" by simp
    have "last segs \<noteq> []" "CHR ''/'' \<notin> set (last segs)"
      using segs last_in_set[OF False] by auto
    then have "last ?j \<noteq> CHR ''/''"
      using join_with_nonempty_last[of "r # segs" "CHR ''/''"] l last_in_set by (metis list.distinct(1))
    then show ?thesis by (simp add: endsWith_slash)
  qed
  have "normalize ?j = CHR ''/'' # ?body"
    using j(2) abs ns trail by (auto simp: normalize_def Let_def)
  then show ?thesis
    using j(2) ne by (simp add: join_def Let_def)
qed

subsection \<open>Lookup stays inside the root\<close>

lemma join_with_append_last:
  "xs \<noteq> [] \<Longrightarrow> join_with c xs @ suf = join_with c (butlast xs @ [last xs @ suf])"
  by (induction xs) (auto simp: join_with_Cons)

lemma plain_segment_suffix:
  "plain_segment s \<Longrightarrow> length suf = 3 \<Longrightarrow> CHR ''/'' \<notin> set suf \<Longrightarrow> plain_segment (s @ suf)"
proof -
  assume a: "plain_segment s" "length suf = 3" "CHR ''/'' \<notin> set suf"
  then have "length (s @ suf) \<ge> 4" by (cases s) (auto simp: plain_segment_def)
  moreover have "4 \<le> length x \<Longrightarrow> x \<noteq> ''.'' \<and> x \<noteq> ''..'' \<and> x \<noteq> []" for x :: string
    by auto
  ultimately have "s @ suf \<noteq> ''.'' \<and> s @ suf \<noteq> ''..'' \<and> s @ suf \<noteq> []"
    by blast
  then show ?thesis using a by (simp add: plain_segment_def)
qed

lemma is_descendant_join:
  assumes "normal_root r rs" "extra \<noteq> []" "\<forall>s \<in> set extra. plain_segment s"
  shows "is_descendant r (CHR ''/'' # join_with CHR ''/'' (rs @ extra))"
proof -
  have rs: "\<forall>s \<in> set rs. plain_segment s" and r: "r = CHR ''/'' # join_with CHR ''/'' rs"
    using assms(1) by (simp_all add: normal_root_def)
  have "segments r = rs"
    unfolding r using rs by (intro segments_abs_join) (simp add: plain_segment_def)
  moreover have "segments (CHR ''/'' # join_with CHR ''/'' (rs @ extra)) = rs @ extra"
    using rs assms(3) by (intro segments_abs_join) (auto simp: plain_segment_def)
  ultimately show ?thesis
    using rs assms(2,3) by (auto simp: is_descendant_def isAbsolute_slash list_all_iff)
qed

lemma is_descendant_suffix:
  assumes "normal_root r rs" "extra \<noteq> []" "\<forall>s \<in> set extra. plain_segment s"
    and "length suf = 3" "CHR ''/'' \<notin> set suf"
  shows "is_descendant r ((CHR ''/'' # join_with CHR ''/'' (rs @ extra)) @ suf)"
proof -
  let ?extra = "butlast extra @ [last extra @ suf]"
  have "join_with CHR ''/'' (rs @ extra) @ suf = join_with CHR ''/'' (rs @ ?extra)"
    using join_with_append_last[of "rs @ extra" "CHR ''/''" suf] assms(2)
    by (simp add: butlast_append)
  moreover have "\<forall>s \<in> set ?extra. plain_segment s"
    using assms(2-5) plain_segment_suffix[of "last extra" suf]
    by (auto dest: in_set_butlastD)
  ultimately show ?thesis
    using is_descendant_join[OF assms(1), of ?extra] by simp
qed

lemma resolveFilePath_form:
  assumes "normal_root (root h) rs"
  shows "\<exists>rest. (\<forall>s \<in> set rest. plain_segment s) \<and>
           resolveFilePath h urlPath = CHR ''/'' # join_with CHR ''/'' (rs @ rest)"
proof -
  let ?segs = "filter (\<lambda>s. s \<noteq> []) (split_on CHR ''/''
                 (remove_dot_runs (backslashes_to_slashes urlPath)))"
  have p: "\<forall>x \<in> set ?segs. x \<noteq> [] \<and> CHR ''/'' \<notin> set x \<and> x \<noteq> ''..''"
    using url_segments[of _ urlPath] by fastforce
  have "resolveFilePath h urlPath =
          CHR ''/'' # join_with CHR ''/'' (rs @ filter (\<lambda>s. s \<noteq> ''.'') ?segs)"
    unfolding resolveFilePath_def Let_def by (rule join_root_segments[OF assms p])
  moreover have "\<forall>s \<in> set (filter (\<lambda>s. s \<noteq> ''.'') ?segs). plain_segment s"
    using p by (auto simp: plain_segment_def)
  ultimately show ?thesis by blast
qed

lemma join_index:
  assumes "\<forall>s \<in> set qs. plain_segment s" "plain_segment i"
  shows "join [CHR ''/'' # join_with CHR ''/'' qs, i] = CHR ''/'' # join_with CHR ''/'' (qs @ [i])"
proof -
  have "normal_root (CHR ''/'' # join_with CHR ''/'' qs) qs"
    using assms(1) by (simp add: normal_root_def)
  from join_root_segments[OF this, of "[i]"] assms(2) show ?thesis
    by (simp add: plain_segment_def)
qed

lemma lookup_filePath_cases:
  "exists (lookup h fs urlPath) \<Longrightarrow>
     (\<exists>p. (p = resolveFilePath h urlPath \<and> \<not> (existsSync fs p \<and> isDirectory fs p) \<or>
           p = join [resolveFilePath h urlPath, index h] \<and>
             isDirectory fs (resolveFilePath h urlPath)) \<and>
          (filePath (lookup h fs urlPath) = p \<or> filePath (lookup h fs urlPath) = p @ ''.br'' \<or>
           filePath (lookup h fs urlPath) = p @ ''.gz''))"
  by (auto simp: lookup_def Let_def not_found_def directory_index_def compressed_variant_def split: if_splits)

text \<open>
  C2, as the code has it. The handler comes from the constructor, its root is a directory
  that exists, and its index name is a plain file name. Then for every url path, with or
  without \<open>..\<close>, \<open>lookup\<close> reports \<open>exists = false\<close> or returns a path that is a descendant
  of the root.
\<close>

theorem lookup_stays_in_root:
  assumes "h = new_BunStaticFileHandler dir options"
    and "plain_segment (index h)"
    and "isDirectory fs (root h)"
  shows "\<not> exists (lookup h fs urlPath) \<or>
         is_descendant (root h) (filePath (lookup h fs urlPath))"
proof (cases "exists (lookup h fs urlPath)")
  case False
  then show ?thesis by simp
next
  case True
  have "root h = resolve dir (options_root options)"
    using assms(1) by (simp add: new_BunStaticFileHandler_def)
  then obtain rs where nr: "normal_root (root h) rs"
    using normal_root_resolve[of dir "options_root options"] by auto
  obtain rest where rest: "\<forall>s \<in> set rest. plain_segment s"
    and res: "resolveFilePath h urlPath = CHR ''/'' # join_with CHR ''/'' (rs @ rest)"
    using resolveFilePath_form[OF nr] by blast
  have root_eq: "root h = CHR ''/'' # join_with CHR ''/'' rs" and prs: "\<forall>s \<in> set rs. plain_segment s"
    using nr by (simp_all add: normal_root_def)
  obtain p where p: "p = resolveFilePath h urlPath \<and> \<not> (existsSync fs p \<and> isDirectory fs p) \<or>
           p = join [resolveFilePath h urlPath, index h] \<and> isDirectory fs (resolveFilePath h urlPath)"
    and fp: "filePath (lookup h fs urlPath) = p \<or> filePath (lookup h fs urlPath) = p @ ''.br'' \<or>
           filePath (lookup h fs urlPath) = p @ ''.gz''"
    using lookup_filePath_cases[OF True] by blast
  have "\<exists>extra. extra \<noteq> [] \<and> (\<forall>s \<in> set extra. plain_segment s) \<and>
          p = CHR ''/'' # join_with CHR ''/'' (rs @ extra)"
  proof -
    from p show ?thesis
    proof
      assume a: "p = resolveFilePath h urlPath \<and> \<not> (existsSync fs p \<and> isDirectory fs p)"
      have "existsSync fs (root h)"
        using assms(3) by (auto simp: isDirectory_def existsSync_def split: option.splits)
      then have "p \<noteq> root h" using a assms(3) by auto
      then have "rest \<noteq> []" using a res root_eq by auto
      then show ?thesis using a res rest by blast
    next
      assume a: "p = join [resolveFilePath h urlPath, index h] \<and>
                 isDirectory fs (resolveFilePath h urlPath)"
      have "\<forall>s \<in> set (rs @ rest). plain_segment s" using prs rest by auto
      from join_index[OF this assms(2)] a res
      have "p = CHR ''/'' # join_with CHR ''/'' (rs @ (rest @ [index h]))" by simp
      moreover have "\<forall>s \<in> set (rest @ [index h]). plain_segment s" using rest assms(2) by simp
      ultimately show ?thesis by blast
    qed
  qed
  then obtain extra where e: "extra \<noteq> []" "\<forall>s \<in> set extra. plain_segment s"
    and pe: "p = CHR ''/'' # join_with CHR ''/'' (rs @ extra)" by blast
  have "is_descendant (root h) p"
    unfolding pe by (rule is_descendant_join[OF nr e])
  moreover have "is_descendant (root h) (p @ ''.br'')"
    unfolding pe by (rule is_descendant_suffix[OF nr e]) simp_all
  moreover have "is_descendant (root h) (p @ ''.gz'')"
    unfolding pe by (rule is_descendant_suffix[OF nr e]) simp_all
  ultimately show ?thesis using fp by auto
qed


text \<open>
  The claim without the condition on the index name fails: with the index name
  \<open>../secret.html\<close> the url \<open>/..\<close> resolves to the root, which is a directory, and the index
  name is joined to it after the traversal check. The file returned lies beside the root.
\<close>

theorem lookup_escapes_counterexample:
  "exists (lookup escaping_handler site_fs ''/..'') \<and>
   filePath (lookup escaping_handler site_fs ''/..'') = ''/srv/secret.html'' \<and>
   root escaping_handler = ''/srv/www'' \<and>
   \<not> is_descendant (root escaping_handler) (filePath (lookup escaping_handler site_fs ''/..''))"
  by code_simp

theorem lookup_stays_in_root_witness:
  "site_handler = new_BunStaticFileHandler ''/'' site_options \<and>
   plain_segment (index site_handler) \<and> isDirectory site_fs (root site_handler) \<and>
   exists (lookup site_handler site_fs climbing_url) \<and>
   filePath (lookup site_handler site_fs climbing_url) = ''/srv/www/app.js.br'' \<and>
   is_descendant (root site_handler) (filePath (lookup site_handler site_fs climbing_url))"
proof -
  have h1: "site_handler = new_BunStaticFileHandler ''/'' site_options"
    by (simp add: site_handler_def)
  have h2: "plain_segment (index site_handler)" by code_simp
  have h3: "isDirectory site_fs (root site_handler)" by code_simp
  have e: "exists (lookup site_handler site_fs climbing_url)" by code_simp
  have f: "filePath (lookup site_handler site_fs climbing_url) = ''/srv/www/app.js.br''"
    by code_simp
  from lookup_stays_in_root[OF h1 h2 h3, of climbing_url] e
  have "is_descendant (root site_handler) (filePath (lookup site_handler site_fs climbing_url))"
    by simp
  then show ?thesis using h1 h2 h3 e f by simp
qed


subsection \<open>Headers, compression and conditional requests\<close>

lemma map_get_map_set:
  "map_get (map_set m k v) k' = (if k' = k then Some v else map_get m k')"
proof (cases "k' = k")
  case True
  then show ?thesis by (simp add: map_get_set_same)
next
  case False
  have "map_of (map (\<lambda>e. if fst e = k then (k, v) else e) m) k' = map_of m k'"
    using False by (induction m) auto
  then show ?thesis using False
    by (simp add: map_get_def map_set_def map_add_def split: option.splits)
qed

lemma map_get_spread_other:
  "map_get b k = None \<Longrightarrow> map_get (spread a b) k = map_get a k"
proof (induction b arbitrary: a)
  case Nil
  then show ?case by (simp add: spread_def)
next
  case (Cons e b)
  then have "fst e \<noteq> k" "map_get b k = None"
    by (auto simp: map_get_def split: if_splits)
  with Cons.IH[of "map_set a (fst e) (snd e)"] show ?case
    by (simp add: spread_def map_get_map_set)
qed

lemma content_encoding_header:
  assumes "map_get (static_headers h) ''Content-Encoding'' = None"
  shows "map_get (serve_headers d h result req) ''Content-Encoding'' =
           (case compressed result of
              None \<Rightarrow> None
            | Some enc \<Rightarrow> if useCompressed result req then Some (encoding_name enc) else None)"
proof -
  have "map_get (spread [(''Content-Type'', mimeType result),
                        (''Cache-Control'', result_cacheControl result)] (static_headers h))
          ''Content-Encoding'' = None"
    using assms by (simp add: map_get_spread_other) (simp add: map_get_def)
  then show ?thesis
    by (simp add: serve_headers_def Let_def map_get_map_set encoding_name_def
        split: option.splits)
qed

lemma etag_header:
  "stats result = Some st \<Longrightarrow> map_get (serve_headers d h result req) ''ETag'' = Some (etag_of st)"
  by (simp add: serve_headers_def Let_def map_get_map_set split: option.splits)

lemma useCompressedD:
  "useCompressed result req \<Longrightarrow>
     \<exists>enc r a. compressed result = Some enc \<and> req = Some r \<and> r ''Accept-Encoding'' = Some a \<and>
       includes_string a (encoding_name enc)"
  by (cases "compressed result"; cases req)
     (auto simp: useCompressed_def Let_def encoding_name_def includes_string_def startsWith_def
       split: option.splits if_splits)

lemma lookup_exists_cases:
  assumes "exists (lookup h fs urlPath)"
  shows "compressed (lookup h fs urlPath) = Some Br \<and>
           existsSync fs (directory_index h fs (resolveFilePath h urlPath) @ ''.br'') \<and>
           filePath (lookup h fs urlPath) = directory_index h fs (resolveFilePath h urlPath) @ ''.br''
         \<or> compressed (lookup h fs urlPath) = Some Gzip \<and>
           \<not> existsSync fs (directory_index h fs (resolveFilePath h urlPath) @ ''.br'') \<and>
           existsSync fs (directory_index h fs (resolveFilePath h urlPath) @ ''.gz'') \<and>
           filePath (lookup h fs urlPath) = directory_index h fs (resolveFilePath h urlPath) @ ''.gz''
         \<or> compressed (lookup h fs urlPath) = None \<and>
           filePath (lookup h fs urlPath) = directory_index h fs (resolveFilePath h urlPath)"
  using assms
  by (auto simp: lookup_def Let_def not_found_def compressed_variant_def split: if_splits)

lemma lookup_exists_stats:
  "exists (lookup h fs urlPath) \<Longrightarrow> \<exists>st. stats (lookup h fs urlPath) = Some st"
  by (auto simp: lookup_def Let_def not_found_def statSync_def existsSync_def
      split: if_splits option.splits node.splits)

lemma lookup_stats_exists:
  "stats (lookup h fs urlPath) = Some st \<Longrightarrow> exists (lookup h fs urlPath)"
  by (auto simp: lookup_def Let_def not_found_def split: if_splits)

lemma serve_Some:
  assumes "serve d h fs urlPath req = Some resp"
  shows "exists (lookup h fs urlPath) \<and>
         response_headers resp = serve_headers d h (lookup h fs urlPath) req \<and>
         (body resp = Some (if useCompressed (lookup h fs urlPath) req
                            then filePath (lookup h fs urlPath)
                            else strip_compression_suffix (filePath (lookup h fs urlPath))) \<and>
            response_status resp = 200
          \<or> response_status resp = 304 \<and> body resp = None)"
  using assms
  by (auto simp: serve_def Let_def split: if_splits option.splits)

subsection \<open>The list of codings in \<open>Accept-Encoding\<close>\<close>

lemma startsWith_iff: "startsWith s p \<longleftrightarrow> (\<exists>v. s = p @ v)"
proof
  assume "startsWith s p"
  then have "s = p @ drop (length p) s"
    by (metis append_take_drop_id startsWith_def)
  then show "\<exists>v. s = p @ v" ..
next
  assume "\<exists>v. s = p @ v"
  then show "startsWith s p" by (auto simp: startsWith_def)
qed

lemma includes_string_iff: "includes_string s p \<longleftrightarrow> (\<exists>u v. s = u @ p @ v)"
proof
  assume "includes_string s p"
  then obtain i where "startsWith (drop i s) p"
    unfolding includes_string_def list_ex_iff by blast
  then obtain v where "drop i s = p @ v" using startsWith_iff by blast
  then have "s = take i s @ p @ v" by (metis append_take_drop_id)
  then show "\<exists>u v. s = u @ p @ v" by blast
next
  assume "\<exists>u v. s = u @ p @ v"
  then obtain u v where s: "s = u @ p @ v" by blast
  then have "startsWith (drop (length u) s) p" by (simp add: startsWith_iff)
  moreover have "length u \<in> set [0..<Suc (length s)]" using s by simp
  ultimately show "includes_string s p"
    unfolding includes_string_def list_ex_iff by blast
qed

text \<open>
  A name without separators that occurs in the value of the header occurs inside one of the
  elements of the list.
\<close>

lemma occurrence_in_element:
  assumes "p \<noteq> []" and "\<forall>c \<in> set p. \<not> is_list_separator c"
  shows "\<exists>u v. s = u @ p @ v \<Longrightarrow> \<exists>t \<in> set (listed_codings s). \<exists>u v. t = u @ p @ v"
proof (induction s rule: listed_codings.induct)
  case 1
  then show ?case using assms(1) by simp
next
  case (2 c cs)
  from "2.prems" obtain u v where s: "c # cs = u @ p @ v" by blast
  show ?case
  proof (cases "is_list_separator c")
    case True
    have "u \<noteq> []"
    proof
      assume "u = []"
      then have "c = hd p" using s assms(1) by (cases p) auto
      then show False using True assms by (cases p) auto
    qed
    then obtain u' where "u = c # u'" "cs = u' @ p @ v"
      using s by (cases u) auto
    then have "\<exists>t \<in> set (listed_codings cs). \<exists>u v. t = u @ p @ v"
      using "2.IH"(1)[OF True] by blast
    then show ?thesis using True by simp
  next
    case False
    let ?t = "c # takeWhile (\<lambda>x. \<not> is_list_separator x) cs"
    let ?rest = "dropWhile (\<lambda>x. \<not> is_list_separator x) cs"
    have split: "?t @ ?rest = u @ (p @ v)" using s by simp
    have rest_hd: "?rest \<noteq> [] \<Longrightarrow> is_list_separator (hd ?rest)"
      using hd_dropWhile[of "\<lambda>x. \<not> is_list_separator x" cs] by auto
    have "(\<exists>u v. ?t = u @ p @ v) \<or> (\<exists>u v. ?rest = u @ p @ v)"
    proof -
      from split obtain z where z: "?t = u @ z \<and> z @ ?rest = p @ v \<or> ?t @ z = u \<and> ?rest = z @ p @ v"
        unfolding append_eq_append_conv2 by blast
      then show ?thesis
      proof
        assume a: "?t = u @ z \<and> z @ ?rest = p @ v"
        then obtain y where y: "z = p @ y \<and> y @ ?rest = v \<or> z @ y = p \<and> ?rest = y @ v"
          unfolding append_eq_append_conv2 by blast
        then show ?thesis
        proof
          assume "z = p @ y \<and> y @ ?rest = v"
          then have "?t = u @ p @ y" using a by simp
          then show ?thesis by blast
        next
          assume b: "z @ y = p \<and> ?rest = y @ v"
          show ?thesis
          proof (cases "y = []")
            case True
            then have "?t = u @ p @ []" using a b by simp
            then show ?thesis by blast
          next
            case False
            then have "hd ?rest = hd y" "?rest \<noteq> []" using b by auto
            moreover have "hd y \<in> set p" using b False by (metis hd_in_set in_set_conv_decomp set_append UnI2)
            ultimately show ?thesis using rest_hd assms(2) by auto
          qed
        qed
      next
        assume "?t @ z = u \<and> ?rest = z @ p @ v"
        then show ?thesis by blast
      qed
    qed
    then show ?thesis
    proof
      assume "\<exists>u v. ?t = u @ p @ v"
      then show ?thesis using False by simp
    next
      assume "\<exists>u v. ?rest = u @ p @ v"
      then have "\<exists>t \<in> set (listed_codings ?rest). \<exists>u v. t = u @ p @ v"
        using "2.IH"(2)[OF False] by blast
      then show ?thesis using False by simp
    qed
  qed
qed

lemma coding_name_containing:
  "t \<in> set coding_names \<Longrightarrow> includes_string t ''br'' \<Longrightarrow> t = ''br''"
  "t \<in> set coding_names \<Longrightarrow> includes_string t ''gzip'' \<Longrightarrow> t = ''gzip''"
proof -
  have "list_all (\<lambda>t. includes_string t ''br'' \<longrightarrow> t = ''br'') coding_names"
    by code_simp
  then show "t \<in> set coding_names \<Longrightarrow> includes_string t ''br'' \<Longrightarrow> t = ''br''"
    by (auto simp: list_all_iff)
  have "list_all (\<lambda>t. includes_string t ''gzip'' \<longrightarrow> t = ''gzip'') coding_names"
    by code_simp
  then show "t \<in> set coding_names \<Longrightarrow> includes_string t ''gzip'' \<Longrightarrow> t = ''gzip''"
    by (auto simp: list_all_iff)
qed

lemma plain_includes_listed:
  assumes "plain_accept_encoding a" and "includes_string a name"
    and "name = ''br'' \<or> name = ''gzip''"
  shows "name \<in> set (listed_codings a)"
proof -
  have n: "name \<noteq> []" "\<forall>c \<in> set name. \<not> is_list_separator c"
    using assms(3) by (auto simp: is_list_separator_def)
  obtain t where t: "t \<in> set (listed_codings a)" "includes_string t name"
    using occurrence_in_element[OF n] assms(2) unfolding includes_string_iff by blast
  then have "t \<in> set coding_names"
    using assms(1) by (simp add: plain_accept_encoding_def list_all_iff)
  then have "t = name"
    using coding_name_containing t(2) assms(3) by blast
  then show ?thesis using t(1) by simp
qed

lemma useCompressed_declares:
  assumes "useCompressed result req" and "plain_request req"
  shows "\<exists>enc. compressed result = Some enc \<and> declares_support req (encoding_name enc)"
proof -
  obtain enc r a where e: "compressed result = Some enc" "req = Some r"
    "r ''Accept-Encoding'' = Some a" "includes_string a (encoding_name enc)"
    using useCompressedD[OF assms(1)] by blast
  have "plain_accept_encoding a" using assms(2) e by (simp add: plain_request_def)
  moreover have "encoding_name enc = ''br'' \<or> encoding_name enc = ''gzip''"
    by (simp add: encoding_name_def)
  ultimately have "encoding_name enc \<in> set (listed_codings a)"
    using plain_includes_listed e(4) by blast
  then show ?thesis using e by (simp add: declares_support_def)
qed

text \<open>
  C6, as the code has it. The custom headers of the handler do not set \<open>Content-Encoding\<close>,
  the request has no \<open>Accept-Encoding\<close> or a plain one, and \<open>serve\<close> answers. Let \<open>p\<close> be the
  path after the index step. Then one of three holds. The response says \<open>br\<close>: \<open>p.br\<close> is on
  disk, the request declares support for \<open>br\<close>, and the body is \<open>p.br\<close>. The response says
  \<open>gzip\<close>: \<open>p.br\<close> is not on disk, \<open>p.gz\<close> is, the request declares support for \<open>gzip\<close>, and
  the body is \<open>p.gz\<close>. Or the response has no \<open>Content-Encoding\<close> and the body is the path of
  the lookup with a final \<open>.br\<close> or \<open>.gz\<close> removed. In each case a response with status 304
  has no body instead. Nothing is said of a request whose \<open>Accept-Encoding\<close> is not plain.
\<close>

theorem content_encoding_negotiated:
  assumes "map_get (static_headers h) ''Content-Encoding'' = None"
    and "plain_request req"
    and "serve d h fs urlPath req = Some resp"
  shows "let p = directory_index h fs (resolveFilePath h urlPath);
             sent = (\<lambda>path. body resp = Some path \<or> response_status resp = 304 \<and> body resp = None);
             encoding = map_get (response_headers resp) ''Content-Encoding''
         in encoding = Some ''br'' \<and> existsSync fs (p @ ''.br'') \<and>
              declares_support req ''br'' \<and> sent (p @ ''.br'')
          \<or> encoding = Some ''gzip'' \<and> \<not> existsSync fs (p @ ''.br'') \<and>
              existsSync fs (p @ ''.gz'') \<and> declares_support req ''gzip'' \<and> sent (p @ ''.gz'')
          \<or> encoding = None \<and>
              sent (strip_compression_suffix (filePath (lookup h fs urlPath)))"
proof -
  let ?r = "lookup h fs urlPath"
  note s = serve_Some[OF assms(3)]
  have enc: "map_get (response_headers resp) ''Content-Encoding'' =
           (case compressed ?r of
              None \<Rightarrow> None
            | Some enc \<Rightarrow> if useCompressed ?r req then Some (encoding_name enc) else None)"
    using s content_encoding_header[OF assms(1)] by simp
  show ?thesis
  proof (cases "useCompressed ?r req")
    case True
    then obtain e where e: "compressed ?r = Some e" "declares_support req (encoding_name e)"
      using useCompressed_declares[OF _ assms(2)] by blast
    show ?thesis
    proof (cases e)
      case Gzip
      then show ?thesis
        using lookup_exists_cases[of h fs urlPath] s e enc True
        by (auto simp: Let_def encoding_name_def)
    next
      case Br
      then show ?thesis
        using lookup_exists_cases[of h fs urlPath] s e enc True
        by (auto simp: Let_def encoding_name_def)
    qed
  next
    case False
    then have "map_get (response_headers resp) ''Content-Encoding'' = None"
      using enc by (simp split: option.splits)
    then show ?thesis using s False by (auto simp: Let_def)
  qed
qed

text \<open>
  The claim as it was stated fails twice. A handler configured with the header
  \<open>Content-Encoding: gzip\<close> sends it with the raw page, which has no compressed variant on
  disk, to a client that sent no request headers at all. And a request whose
  \<open>Accept-Encoding\<close> is \<open>identity, br;q=0\<close>, which refuses \<open>br\<close> and does not list it, gets the
  \<open>.br\<close> file with \<open>Content-Encoding: br\<close>, because the name occurs in the header.
\<close>

theorem content_encoding_custom_header_counterexample:
  "serve plain_dates encoding_header_handler site_fs ''/index.html'' None =
     Some \<lparr>response_status = 200,
           response_headers =
             [(''Content-Type'', ''text/html; charset=utf-8''), (''Cache-Control'', ''no-cache''),
              (''Content-Encoding'', ''gzip''), (''Last-Modified'', ''1700000000123''),
              (''ETag'', etag_of \<lparr>size = 10, mtime = 1700000000123\<rparr>)],
           body = Some ''/srv/www/index.html''\<rparr> \<and>
   \<not> existsSync site_fs ''/srv/www/index.html.br'' \<and>
   \<not> existsSync site_fs ''/srv/www/index.html.gz'' \<and>
   serve plain_dates site_handler site_fs ''/app.js''
       (Some (request_with [(''Accept-Encoding'', ''identity, br;q=0'')])) =
     Some \<lparr>response_status = 200,
           response_headers =
             [(''Content-Type'', ''text/javascript; charset=utf-8''),
              (''Cache-Control'', ''public, max-age=86400''),
              (''Content-Encoding'', ''br''), (''Last-Modified'', ''1700000000457''),
              (''ETag'', etag_of \<lparr>size = 6, mtime = 1700000000457\<rparr>)],
           body = Some ''/srv/www/app.js.br''\<rparr> \<and>
   listed_codings ''identity, br;q=0'' = [''identity'', ''br;q=0''] \<and>
   \<not> declares_support (Some (request_with [(''Accept-Encoding'', ''identity, br;q=0'')])) ''br''"
  by code_simp

theorem content_encoding_negotiated_witness:
  "map_get (static_headers site_handler) ''Content-Encoding'' = None \<and>
   plain_request (Some (request_with [(''Accept-Encoding'', ''gzip, deflate, br'')])) \<and>
   serve plain_dates site_handler site_fs ''/app.js''
       (Some (request_with [(''Accept-Encoding'', ''gzip, deflate, br'')])) =
     Some \<lparr>response_status = 200,
           response_headers =
             [(''Content-Type'', ''text/javascript; charset=utf-8''),
              (''Cache-Control'', ''public, max-age=86400''),
              (''Content-Encoding'', ''br''), (''Last-Modified'', ''1700000000457''),
              (''ETag'', etag_of \<lparr>size = 6, mtime = 1700000000457\<rparr>)],
           body = Some ''/srv/www/app.js.br''\<rparr> \<and>
   directory_index site_handler site_fs (resolveFilePath site_handler ''/app.js'') =
     ''/srv/www/app.js'' \<and>
   existsSync site_fs ''/srv/www/app.js.br'' \<and>
   declares_support (Some (request_with [(''Accept-Encoding'', ''gzip, deflate, br'')])) ''br''"
proof -
  let ?req = "Some (request_with [(''Accept-Encoding'', ''gzip, deflate, br'')])"
  let ?resp = "\<lparr>response_status = 200,
           response_headers =
             [(''Content-Type'', ''text/javascript; charset=utf-8''),
              (''Cache-Control'', ''public, max-age=86400''),
              (''Content-Encoding'', ''br''), (''Last-Modified'', ''1700000000457''),
              (''ETag'', etag_of \<lparr>size = 6, mtime = 1700000000457\<rparr>)],
           body = Some ''/srv/www/app.js.br''\<rparr>"
  have h1: "map_get (static_headers site_handler) ''Content-Encoding'' = None" by code_simp
  have h2: "plain_request ?req" by code_simp
  have h3: "serve plain_dates site_handler site_fs ''/app.js'' ?req = Some ?resp" by code_simp
  have p: "directory_index site_handler site_fs (resolveFilePath site_handler ''/app.js'') =
     ''/srv/www/app.js''" by code_simp
  have ce: "map_get (response_headers ?resp) ''Content-Encoding'' = Some ''br''" by code_simp
  have "existsSync site_fs ''/srv/www/app.js.br'' \<and> declares_support ?req ''br''"
    using content_encoding_negotiated[OF h1 h2 h3] unfolding Let_def p ce
    by auto
  then show ?thesis using h1 h2 h3 p by simp
qed

lemma conditional_request_not_modified_aux:
  assumes "exists (lookup h fs urlPath)"
    and "stats (lookup h fs urlPath) = Some st"
    and "r ''If-None-Match'' = Some (etag_of st)"
  shows "serve d h fs urlPath (Some r) =
           Some \<lparr>response_status = 304,
                 response_headers = serve_headers d h (lookup h fs urlPath) (Some r),
                 body = None\<rparr>"
proof -
  have "not_modified d (serve_headers d h (lookup h fs urlPath) (Some r)) st r"
    using assms(3) etag_header[OF assms(2), of d h "Some r"]
    by (auto simp: not_modified_def)
  then show ?thesis
    using assms(1,2) by (simp add: serve_def Let_def)
qed

text \<open>
  C7. The file of the lookup exists, with size and modification time \<open>st\<close>. If the
  \<open>If-None-Match\<close> of the request is the entity tag computed from \<open>st\<close>, or its
  \<open>If-Modified-Since\<close> holds a date that is not before the modification time, \<open>serve\<close>
  answers with status 304 and no body.
\<close>

theorem conditional_request_not_modified:
  assumes "exists (lookup h fs urlPath)"
    and "stats (lookup h fs urlPath) = Some st"
    and "r ''If-None-Match'' = Some (etag_of st) \<or>
         (\<exists>s t. r ''If-Modified-Since'' = Some s \<and> s \<noteq> [] \<and> parse_date d s = Some t \<and>
                mtime st \<le> t)"
  shows "serve d h fs urlPath (Some r) =
           Some \<lparr>response_status = 304,
                 response_headers = serve_headers d h (lookup h fs urlPath) (Some r),
                 body = None\<rparr>"
proof -
  have "not_modified d (serve_headers d h (lookup h fs urlPath) (Some r)) st r"
    using assms(3) etag_header[OF assms(2), of d h "Some r"]
    by (auto simp: not_modified_def)
  then show ?thesis
    using assms(1,2) by (simp add: serve_def Let_def)
qed

theorem conditional_request_not_modified_witness:
  "exists (lookup site_handler site_fs ''/index.html'') \<and>
   stats (lookup site_handler site_fs ''/index.html'') = Some \<lparr>size = 10, mtime = 1700000000123\<rparr> \<and>
   request_with [(''If-None-Match'', etag_of \<lparr>size = 10, mtime = 1700000000123\<rparr>)]
       ''If-None-Match'' = Some (etag_of \<lparr>size = 10, mtime = 1700000000123\<rparr>) \<and>
   serve plain_dates site_handler site_fs ''/index.html''
       (Some (request_with [(''If-None-Match'', etag_of \<lparr>size = 10, mtime = 1700000000123\<rparr>)])) =
     Some \<lparr>response_status = 304,
           response_headers =
             [(''Content-Type'', ''text/html; charset=utf-8''), (''Cache-Control'', ''no-cache''),
              (''Last-Modified'', ''1700000000123''),
              (''ETag'', etag_of \<lparr>size = 10, mtime = 1700000000123\<rparr>)],
           body = None\<rparr>"
proof -
  let ?st = "\<lparr>size = 10, mtime = 1700000000123\<rparr>"
  let ?r = "request_with [(''If-None-Match'', etag_of ?st)]"
  have h1: "exists (lookup site_handler site_fs ''/index.html'')" by code_simp
  have h2: "stats (lookup site_handler site_fs ''/index.html'') = Some ?st" by code_simp
  have h3: "?r ''If-None-Match'' = Some (etag_of ?st)" by (simp add: request_with_def)
  have hs: "serve_headers plain_dates site_handler (lookup site_handler site_fs ''/index.html'')
              (Some ?r) =
             [(''Content-Type'', ''text/html; charset=utf-8''), (''Cache-Control'', ''no-cache''),
              (''Last-Modified'', ''1700000000123''), (''ETag'', etag_of ?st)]"
    by code_simp
  have s: "serve plain_dates site_handler site_fs ''/index.html'' (Some ?r) =
           Some \<lparr>response_status = 304,
                 response_headers = serve_headers plain_dates site_handler
                    (lookup site_handler site_fs ''/index.html'') (Some ?r),
                 body = None\<rparr>"
    by (rule conditional_request_not_modified[where d = plain_dates and r = ?r,
          OF h1 h2 disjI1[OF h3]])
  show ?thesis
    unfolding s hs using h1 h2 h3 by (intro conjI refl)
qed

text \<open>
  C10. The entity tag of a response is the size and the modification time of the file in
  decimal, joined by a dash, in double quotes, and nothing else: two lookups whose files have
  the same size and the same modification time give the same tag, whatever the bytes of the
  files, the handlers and the urls. A request that presents the tag of the first response
  is therefore answered 304, without a body, by the second.
\<close>

theorem etag_from_size_and_mtime:
  assumes "serve d1 h1 fs1 url1 req1 = Some resp1"
    and "serve d2 h2 fs2 url2 (Some r2) = Some resp2"
    and "stats (lookup h1 fs1 url1) = Some st1"
    and "stats (lookup h2 fs2 url2) = Some st2"
    and "size st1 = size st2" and "mtime st1 = mtime st2"
  shows "map_get (response_headers resp1) ''ETag'' =
           Some ([CHR 0x22] @ number_string (size st1) @ ''-'' @ number_string (mtime st1) @
                 [CHR 0x22]) \<and>
         map_get (response_headers resp2) ''ETag'' = map_get (response_headers resp1) ''ETag'' \<and>
         (r2 ''If-None-Match'' = map_get (response_headers resp1) ''ETag'' \<longrightarrow>
            response_status resp2 = 304 \<and> body resp2 = None)"
proof -
  have e: "etag_of st2 = etag_of st1"
    using assms(5,6) by (simp add: etag_of_def)
  have t1: "map_get (response_headers resp1) ''ETag'' = Some (etag_of st1)"
    using serve_Some[OF assms(1)] etag_header[OF assms(3)] by simp
  have t2: "map_get (response_headers resp2) ''ETag'' = Some (etag_of st2)"
    using serve_Some[OF assms(2)] etag_header[OF assms(4)] by simp
  have "response_status resp2 = 304 \<and> body resp2 = None"
    if "r2 ''If-None-Match'' = map_get (response_headers resp1) ''ETag''"
  proof -
    have "r2 ''If-None-Match'' = Some (etag_of st2)" using that t1 e by simp
    from conditional_request_not_modified_aux[where r = r2 and d = d2,
        OF lookup_stats_exists[OF assms(4)] assms(4) this]
    show ?thesis using assms(2) by simp
  qed
  moreover have "map_get (response_headers resp1) ''ETag'' =
           Some ([CHR 0x22] @ number_string (size st1) @ ''-'' @ number_string (mtime st1) @
                 [CHR 0x22])"
    unfolding t1 by (simp add: etag_of_def)
  moreover have "map_get (response_headers resp2) ''ETag'' = map_get (response_headers resp1) ''ETag''"
    unfolding t1 t2 e by (rule refl)
  ultimately show ?thesis by blast
qed


theorem etag_from_size_and_mtime_witness:
  "site_fs ''/srv/www/index.html'' = Some (File ''<p>old</p>'' 1700000000123) \<and>
   site_fs_changed ''/srv/www/index.html'' = Some (File ''<p>new</p>'' 1700000000123) \<and>
   stats (lookup site_handler site_fs ''/index.html'') =
     Some \<lparr>size = 10, mtime = 1700000000123\<rparr> \<and>
   stats (lookup site_handler site_fs_changed ''/index.html'') =
     Some \<lparr>size = 10, mtime = 1700000000123\<rparr> \<and>
   serve plain_dates site_handler site_fs_changed ''/index.html''
       (Some (request_with [(''If-None-Match'', etag_of \<lparr>size = 10, mtime = 1700000000123\<rparr>)])) =
     Some \<lparr>response_status = 304,
           response_headers =
             [(''Content-Type'', ''text/html; charset=utf-8''), (''Cache-Control'', ''no-cache''),
              (''Last-Modified'', ''1700000000123''),
              (''ETag'', etag_of \<lparr>size = 10, mtime = 1700000000123\<rparr>)],
           body = None\<rparr> \<and>
   map_get (response_headers
      (the (serve plain_dates site_handler site_fs ''/index.html'' None))) ''ETag'' =
     Some ([CHR 0x22] @ ''10-1700000000123'' @ [CHR 0x22])"
proof -
  let ?st = "\<lparr>size = 10, mtime = 1700000000123\<rparr>"
  let ?r = "request_with [(''If-None-Match'', etag_of ?st)]"
  let ?hs = "[(''Content-Type'', ''text/html; charset=utf-8''), (''Cache-Control'', ''no-cache''),
              (''Last-Modified'', ''1700000000123''), (''ETag'', etag_of ?st)]"
  let ?resp1 = "\<lparr>response_status = 200, response_headers = ?hs,
                 body = Some ''/srv/www/index.html''\<rparr>"
  let ?resp2 = "\<lparr>response_status = 304, response_headers = ?hs, body = None\<rparr>"
  have f1: "site_fs ''/srv/www/index.html'' = Some (File ''<p>old</p>'' 1700000000123)"
    by code_simp
  have f2: "site_fs_changed ''/srv/www/index.html'' = Some (File ''<p>new</p>'' 1700000000123)"
    by code_simp
  have s1: "serve plain_dates site_handler site_fs ''/index.html'' None = Some ?resp1"
    by code_simp
  have s2: "serve plain_dates site_handler site_fs_changed ''/index.html'' (Some ?r) = Some ?resp2"
    by code_simp
  have st1: "stats (lookup site_handler site_fs ''/index.html'') = Some ?st" by code_simp
  have st2: "stats (lookup site_handler site_fs_changed ''/index.html'') = Some ?st" by code_simp
  have n: "number_string 10 = ''10''" "number_string 1700000000123 = ''1700000000123''"
    by code_simp+
  have "map_get (response_headers ?resp1) ''ETag'' =
          Some ([CHR 0x22] @ number_string (size ?st) @ ''-'' @ number_string (mtime ?st) @
                [CHR 0x22])"
    using etag_from_size_and_mtime[OF s1 s2 st1 st2] by simp
  then have e: "map_get (response_headers ?resp1) ''ETag'' =
          Some ([CHR 0x22] @ ''10-1700000000123'' @ [CHR 0x22])"
    by (simp add: n)
  show ?thesis
    unfolding s1 s2 option.sel using f1 f2 st1 st2 e by (intro conjI refl)
qed



section \<open>Prerendering\<close>

subsection \<open>Chunks\<close>

lemma chunk_loop_returns_only_if:
  assumes "chunk_loop array n i chunks = Some r"
  shows "\<not> (n \<le> 0 \<and> i < int (length array))"
proof (rule chunk_loop.raw_induct[where P = "\<lambda>array n i chunks r. \<not> (n \<le> 0 \<and> i < int (length array))",
      OF _ assms])
  fix f :: "'a list \<Rightarrow> int \<Rightarrow> int \<Rightarrow> 'a list list \<Rightarrow> 'a list list option"
    and array n i chunks r
  assume ih: "\<And>array n i chunks r. f array n i chunks = Some r \<Longrightarrow>
                \<not> (n \<le> 0 \<and> i < int (length array))"
    and step: "(if i < int (length array)
                then f array n (i + n) (chunks @ [slice array i (i + n)])
                else Some chunks) = Some r"
  show "\<not> (n \<le> 0 \<and> i < int (length array))"
  proof
    assume a: "n \<le> 0 \<and> i < int (length array)"
    then have "f array n (i + n) (chunks @ [slice array i (i + n)]) = Some r"
      using step by simp
    from ih[OF this] a show False by simp
  qed
qed

lemma chunk_diverges: "n \<le> 0 \<Longrightarrow> array \<noteq> [] \<Longrightarrow> chunk array n = None"
proof -
  assume a: "n \<le> 0" "array \<noteq> []"
  have "chunk array n \<noteq> Some r" for r
    using chunk_loop_returns_only_if[of array n 0 "[]" r] a by (auto simp: chunk_def)
  then show ?thesis by (cases "chunk array n") auto
qed

lemma chunk_keeps_pushing:
  assumes "n \<le> 0" and "array \<noteq> []"
  shows "\<exists>chunks. length chunks = k \<and> chunk array n = chunk_loop array n (int k * n) chunks"
proof (induction k)
  case 0
  show ?case by (simp add: chunk_def)
next
  case (Suc k)
  then obtain chunks where l: "length chunks = k"
    and c: "chunk array n = chunk_loop array n (int k * n) chunks"
    by blast
  have "int k * n \<le> 0"
    using assms(1) by (simp add: mult_nonneg_nonpos)
  then have "int k * n < int (length array)"
    using assms(2) by (cases array) simp_all
  then have "chunk_loop array n (int k * n) chunks =
        chunk_loop array n (int k * n + n) (chunks @ [slice array (int k * n) (int k * n + n)])"
    by (subst chunk_loop.simps) simp
  moreover have "int k * n + n = int (Suc k) * n"
    by (simp add: algebra_simps)
  ultimately have "chunk array n = chunk_loop array n (int (Suc k) * n)
        (chunks @ [slice array (int k * n) (int k * n + n)])"
    using c by simp
  moreover have "length (chunks @ [slice array (int k * n) (int k * n + n)]) = Suc k"
    using l by simp
  ultimately show ?case by blast
qed




subsection \<open>Runs that are never stopped\<close>









subsection \<open>The entries of a sitemap\<close>
















subsection \<open>The end of a run\<close>

lemma finish_sitemap:
  assumes fin: "finish w options st = (Inr r, d')"
    and want: "shouldGenerateSitemap options \<noteq> Some False" and some: "0 < success r"
  shows "\<exists>locs. resolve_all w (case baseUrl options of None \<Rightarrow> ''http://localhost'' | Some b \<Rightarrow> b)
                    (successfulRoutes r) = Inr locs \<and>
           writes d' = writes (run_disk st) @
              [(join [outputDir options, ''sitemap.xml''], sitemap_document locs)] \<and>
           nodes d' (join [outputDir options, ''sitemap.xml'']) =
              Some (File (sitemap_document locs) (write_time w))"
proof -
  define base where "base = (case baseUrl options of None \<Rightarrow> ''http://localhost'' | Some b \<Rightarrow> b)"
  define target where "target = join [outputDir options, ''sitemap.xml'']"
  define done_result where "done_result = (run_result st)\<lparr>totalTime := total_time w\<rparr>"
  have f: "finish w options st =
     (if shouldGenerateSitemap options \<noteq> Some False \<and> 0 < success (run_result st) then
        (case generateSitemap w (successfulRoutes (run_result st)) base of
           Inl err \<Rightarrow> (Inl err, run_disk st)
         | Inr sitemapContent \<Rightarrow>
             (case writeFile w (run_disk st) target sitemapContent of
                Inl err \<Rightarrow> (Inl err, run_disk st)
              | Inr d \<Rightarrow> (Inr done_result, d)))
      else (Inr done_result, run_disk st))"
    unfolding finish_def base_def target_def done_result_def by (rule refl)
  have r: "r = done_result"
    using fin unfolding f by (simp split: if_splits sum.splits)
  then have same: "success (run_result st) = success r"
    "successfulRoutes (run_result st) = successfulRoutes r"
    by (simp_all add: done_result_def successfulRoutes_def)
  have cond: "shouldGenerateSitemap options \<noteq> Some False \<and> 0 < success (run_result st)"
    using want some same by simp
  obtain locs where locs: "resolve_all w base (successfulRoutes r) = Inr locs"
    using fin cond same unfolding f generateSitemap_def
    by (cases "resolve_all w base (successfulRoutes r)") simp_all
  have g: "generateSitemap w (successfulRoutes (run_result st)) base = Inr (sitemap_document locs)"
    using locs same by (simp add: generateSitemap_def)
  have wf: "writeFile w (run_disk st) target (sitemap_document locs) = Inr d'"
    using fin cond unfolding f g
    by (cases "writeFile w (run_disk st) target (sitemap_document locs)") simp_all
  have "writes d' = writes (run_disk st) @ [(target, sitemap_document locs)] \<and>
        nodes d' target = Some (File (sitemap_document locs) (write_time w))"
    using wf unfolding writeFile_def
    by (cases "io_fails w (nodes (run_disk st)) target") auto
  then show ?thesis
    using locs unfolding base_def target_def by blast
qed

lemma prerenderRoutes_finished:
  assumes "prerenderRoutes w options d = Some (Inr r, d')"
  shows "\<exists>st. finish w options st = (Inr r, d')"
proof -
  obtain render_url where e: "engine options = Some render_url"
    using assms by (cases "engine options") (simp_all add: prerenderRoutes_def)
  obtain tasks where t: "expand_routes (routes options) = Inr tasks"
    using assms e by (cases "expand_routes (routes options)") (simp_all add: prerenderRoutes_def)
  define made where "made = (if \<not> existsSync (nodes d) (outputDir options)
                      then mkdir_recursive w d (outputDir options) else Inr d)"
  obtain d1 where m: "made = Inr d1"
    using assms e t unfolding made_def
    by (cases "if \<not> existsSync (nodes d) (outputDir options)
                      then mkdir_recursive w d (outputDir options) else Inr d")
       (simp_all add: prerenderRoutes_def)
  define n where "n = (case concurrency options of None \<Rightarrow> 5 | Some n \<Rightarrow> n)"
  have p: "prerenderRoutes w options d =
      (case chunk tasks n of
         None \<Rightarrow> None
       | Some chunks \<Rightarrow>
           (case run_chunks w options render_url
                   \<lparr>run_result = \<lparr>total = length tasks, success = 0,
                               failed = 0, result_routes = [], totalTime = 0\<rparr>,
                    run_completed = 0, run_disk = d1, run_progress = []\<rparr> chunks of
              (Some err, st) \<Rightarrow> Some (Inl err, run_disk st)
            | (None, st) \<Rightarrow> Some (finish w options st)))"
    using e t m unfolding made_def n_def prerenderRoutes_def by simp
  obtain chunks where c: "chunk tasks n = Some chunks"
    using assms unfolding p by (cases "chunk tasks n") simp_all
  obtain thrown st where rc: "run_chunks w options render_url
                   \<lparr>run_result = \<lparr>total = length tasks, success = 0,
                               failed = 0, result_routes = [], totalTime = 0\<rparr>,
                    run_completed = 0, run_disk = d1, run_progress = []\<rparr> chunks = (thrown, st)"
    by (meson surj_pair)
  have "finish w options st = (Inr r, d')"
    using assms rc unfolding p c by (cases thrown) simp_all
  then show ?thesis by blast
qed

subsection \<open>A run that nothing stops\<close>

lemma mkdir_recursive_writes:
  "mkdir_recursive w d p = Inr d1 \<Longrightarrow> writes d1 = writes d"
  by (auto simp: mkdir_recursive_def split: option.splits)



subsection \<open>The three scenarios\<close>








text \<open>
  C5. The claim: for every concurrency value at most 0, \<open>prerenderRoutes\<close> substitutes a
  default or rejects, and the call ends without using the invalid value. The code: the
  default 5 is substituted only for an absent option, and a value at most 0 reaches \<open>chunk\<close>,
  whose loop adds it to \<open>i\<close> and never leaves \<open>i < array.length\<close>. With an engine, routes that
  expand to at least one task and an output directory that exists or can be made, the call
  does not return, it neither resolves nor rejects: for every \<open>k\<close>, the loop of \<open>chunk\<close> reaches
  its \<open>k\<close>-th iteration with \<open>k\<close> chunks pushed.
\<close>

theorem nonpositive_concurrency_never_returns:
  assumes "engine options = Some render_url"
    and "expand_routes (routes options) = Inr tasks" and "tasks \<noteq> []"
    and "concurrency options = Some n" and "n \<le> 0"
    and "existsSync (nodes d) (outputDir options) \<or> io_fails w (nodes d) (outputDir options) = None"
  shows "prerenderRoutes w options d = None \<and>
         (\<forall>k. \<exists>chunks. length chunks = k \<and>
                chunk tasks n = chunk_loop tasks n (int k * n) chunks)"
proof -
  have c: "chunk tasks n = None"
    using assms(3,5) by (intro chunk_diverges)
  have "\<exists>d1. (if \<not> existsSync (nodes d) (outputDir options)
                      then mkdir_recursive w d (outputDir options) else Inr d) = Inr d1"
    using assms(6)
    by (cases "existsSync (nodes d) (outputDir options)") (simp_all add: mkdir_recursive_def)
  then obtain d1 where m: "(if \<not> existsSync (nodes d) (outputDir options)
                      then mkdir_recursive w d (outputDir options) else Inr d) = Inr d1"
    by blast
  have "prerenderRoutes w options d = None"
    unfolding prerenderRoutes_def using assms(1,2,4) m c by simp
  then show ?thesis
    using chunk_keeps_pushing[OF assms(5,3)] by blast
qed

theorem nonpositive_concurrency_never_returns_witness:
  "engine zero_concurrency_options = Some example_render \<and>
   expand_routes (routes zero_concurrency_options) = Inr [(''/'', ''/index.html'')] \<and>
   concurrency zero_concurrency_options = Some 0 \<and>
   prerenderRoutes example_prerender_env zero_concurrency_options empty_disk = None"
proof -
  have e: "expand_routes (routes zero_concurrency_options) = Inr [(''/'', ''/index.html'')]"
    by code_simp
  have io: "existsSync (nodes empty_disk) (outputDir zero_concurrency_options) \<or>
      io_fails example_prerender_env (nodes empty_disk) (outputDir zero_concurrency_options) = None"
    by (simp add: example_prerender_env_def)
  have "prerenderRoutes example_prerender_env zero_concurrency_options empty_disk = None"
    using nonpositive_concurrency_never_returns[of zero_concurrency_options example_render
        "[(''/'', ''/index.html'')]" 0 empty_disk example_prerender_env] e io
    by (simp add: zero_concurrency_options_def)
  then show ?thesis
    using e by (simp add: zero_concurrency_options_def)
qed





end
